theory Spec2Isabelle
  imports Main "HOL-Library.Word" "HOL-Library.Signed_Division"
begin

section \<open>Go string helpers used by the operator\<close>

text \<open>
  A Go \<^verbatim>\<open>string\<close> is a sequence of bytes; it is modelled as \<^typ>\<open>string\<close>
  (a list of 8-bit characters).  The operator uses four functions of the standard
  \<^verbatim>\<open>strings\<close> package: \<^verbatim>\<open>Split\<close> (always with the separator \<^verbatim>\<open>","\<close>),
  \<^verbatim>\<open>TrimSpace\<close>, \<^verbatim>\<open>Join\<close> and \<^verbatim>\<open>Fields\<close>.  White space is what
  \<^verbatim>\<open>unicode.IsSpace\<close> accepts: the six ASCII characters, and the UTF-8 encodings of
  U+0085, U+00A0, U+1680, U+2000..U+200A, U+2028, U+2029, U+202F, U+205F and U+3000.
\<close>

definition isAsciiSpace :: "char \<Rightarrow> bool" where
  "isAsciiSpace c = (c = CHR 0x09 \<or> c = CHR 0x0A \<or> c = CHR 0x0B \<or> c = CHR 0x0C
     \<or> c = CHR 0x0D \<or> c = CHR '' '')"

definition spaceRunes2 :: "string list" where
  "spaceRunes2 = [[CHR 0xC2, CHR 0x85], [CHR 0xC2, CHR 0xA0]]"

definition spaceRunes3 :: "string list" where
  "spaceRunes3 =
     [CHR 0xE1, CHR 0x9A, CHR 0x80] #
     map (\<lambda>b. [CHR 0xE2, CHR 0x80, b])
       [CHR 0x80, CHR 0x81, CHR 0x82, CHR 0x83, CHR 0x84, CHR 0x85, CHR 0x86, CHR 0x87,
        CHR 0x88, CHR 0x89, CHR 0x8A, CHR 0xA8, CHR 0xA9, CHR 0xAF] @
     [[CHR 0xE2, CHR 0x81, CHR 0x9F], [CHR 0xE3, CHR 0x80, CHR 0x80]]"

text \<open>The width in bytes of a white-space rune at the start of a string (0: there is none).\<close>

definition spaceWidth :: "string \<Rightarrow> nat" where
  "spaceWidth s =
     (if s \<noteq> [] \<and> isAsciiSpace (hd s) then 1
      else if take 2 s \<in> set spaceRunes2 then 2
      else if take 3 s \<in> set spaceRunes3 then 3
      else 0)"

text \<open>The same at the end of a string.\<close>

definition spaceWidthEnd :: "string \<Rightarrow> nat" where
  "spaceWidthEnd s =
     (if s \<noteq> [] \<and> isAsciiSpace (last s) then 1
      else if drop (length s - 2) s \<in> set spaceRunes2 then 2
      else if drop (length s - 3) s \<in> set spaceRunes3 then 3
      else 0)"

lemma take_mem_length:
  assumes "take n s \<in> set L" and "\<And>x. x \<in> set L \<Longrightarrow> length x = n"
  shows "n \<le> length s"
proof -
  have "length (take n s) = n" using assms by blast
  then show ?thesis by simp
qed

lemma spaceRunes2_length: "x \<in> set spaceRunes2 \<Longrightarrow> length x = 2"
  by (auto simp: spaceRunes2_def)

lemma spaceRunes3_length: "x \<in> set spaceRunes3 \<Longrightarrow> length x = 3"
  by (auto simp: spaceRunes3_def)

lemma spaceWidth_le: "spaceWidth s \<le> length s"
proof -
  have a: "s \<noteq> [] \<Longrightarrow> 1 \<le> length s" by (cases s) simp_all
  have b: "take 2 s \<in> set spaceRunes2 \<Longrightarrow> 2 \<le> length s"
    by (rule take_mem_length [where L = spaceRunes2]) (simp_all add: spaceRunes2_length)
  have c: "take 3 s \<in> set spaceRunes3 \<Longrightarrow> 3 \<le> length s"
    by (rule take_mem_length [where L = spaceRunes3]) (simp_all add: spaceRunes3_length)
  show ?thesis using a b c by (auto simp: spaceWidth_def)
qed

lemma spaceWidthEnd_pos_nonempty: "spaceWidthEnd s \<noteq> 0 \<Longrightarrow> s \<noteq> []"
  by (auto simp: spaceWidthEnd_def spaceRunes2_def spaceRunes3_def)

function trimLeft :: "string \<Rightarrow> string" where
  "trimLeft s = (if spaceWidth s = 0 then s else trimLeft (drop (spaceWidth s) s))"
  by pat_completeness auto

termination
proof (relation "measure length")
  show "wf (measure length)" by simp
next
  fix s :: string
  assume "spaceWidth s \<noteq> 0"
  moreover have "spaceWidth s \<le> length s" by (rule spaceWidth_le)
  ultimately show "(drop (spaceWidth s) s, s) \<in> measure length" by simp
qed

function trimRight :: "string \<Rightarrow> string" where
  "trimRight s =
     (if spaceWidthEnd s = 0 then s else trimRight (take (length s - spaceWidthEnd s) s))"
  by pat_completeness auto

termination
proof (relation "measure length")
  show "wf (measure length)" by simp
next
  fix s :: string
  assume a: "spaceWidthEnd s \<noteq> 0"
  then have "s \<noteq> []" by (rule spaceWidthEnd_pos_nonempty)
  with a show "(take (length s - spaceWidthEnd s) s, s) \<in> measure length" by simp
qed

declare trimLeft.simps [simp del] trimRight.simps [simp del]

text \<open>\<^verbatim>\<open>strings.TrimSpace\<close>: all leading and all trailing white space removed.\<close>

definition TrimSpace :: "string \<Rightarrow> string" where
  "TrimSpace s = trimRight (trimLeft s)"

text \<open>\<^verbatim>\<open>strings.Split(s, sep)\<close> for a one-byte separator; \<^verbatim>\<open>Split("", ",")\<close> is
  the one-element list holding the empty string.\<close>

fun Split :: "string \<Rightarrow> char \<Rightarrow> string list" where
  "Split [] sep = [[]]"
| "Split (c # cs) sep =
     (if c = sep then [] # Split cs sep
      else (case Split cs sep of [] \<Rightarrow> [[c]] | p # ps \<Rightarrow> (c # p) # ps))"

text \<open>\<^verbatim>\<open>strings.Join(elems, sep)\<close>.\<close>

fun Join :: "string list \<Rightarrow> string \<Rightarrow> string" where
  "Join [] sep = []"
| "Join [x] sep = x"
| "Join (x # y # ys) sep = x @ sep @ Join (y # ys) sep"

text \<open>The number of bytes before the next white-space rune (or the end).\<close>

fun fieldLen :: "string \<Rightarrow> nat" where
  "fieldLen [] = 0"
| "fieldLen (c # cs) = (if spaceWidth (c # cs) \<noteq> 0 then 0 else Suc (fieldLen cs))"

lemma trimLeft_length: "length (trimLeft s) \<le> length s"
proof (induction s rule: trimLeft.induct)
  case (1 s)
  show ?case
  proof (cases "spaceWidth s = 0")
    case True
    then show ?thesis by (simp add: trimLeft.simps [of s])
  next
    case False
    with "1" have "length (trimLeft (drop (spaceWidth s) s)) \<le> length (drop (spaceWidth s) s)"
      by simp
    with False show ?thesis by (simp add: trimLeft.simps [of s])
  qed
qed

lemma trimLeft_no_space: "spaceWidth (trimLeft s) = 0"
proof (induction s rule: trimLeft.induct)
  case (1 s)
  then show ?case by (cases "spaceWidth s = 0") (simp_all add: trimLeft.simps [of s])
qed

lemma fieldLen_pos: "s \<noteq> [] \<Longrightarrow> spaceWidth s = 0 \<Longrightarrow> 0 < fieldLen s"
  by (cases s) simp_all

text \<open>\<^verbatim>\<open>strings.Fields\<close>: the maximal runs of bytes between white space.\<close>

function Fields :: "string \<Rightarrow> string list" where
  "Fields s =
     (if trimLeft s = [] then []
      else take (fieldLen (trimLeft s)) (trimLeft s)
           # Fields (drop (fieldLen (trimLeft s)) (trimLeft s)))"
  by pat_completeness auto

termination
proof (relation "measure length")
  show "wf (measure length)" by simp
next
  fix s :: string
  assume ne: "trimLeft s \<noteq> []"
  have "0 < fieldLen (trimLeft s)"
    using ne trimLeft_no_space [of s] by (rule fieldLen_pos)
  moreover have "length (trimLeft s) \<le> length s" by (rule trimLeft_length)
  moreover have "0 < length (trimLeft s)" using ne by simp
  ultimately have "length (trimLeft s) - fieldLen (trimLeft s) < length s"
    by arith
  then show "(drop (fieldLen (trimLeft s)) (trimLeft s), s) \<in> measure length"
    by simp
qed

declare Fields.simps [simp del]

section \<open>Annotations and desired state (internal/controller)\<close>

definition AnnotationRegister :: string where
  "AnnotationRegister = ''pihole.io/register''"

definition AnnotationTargetIP :: string where
  "AnnotationTargetIP = ''pihole.io/target-ip''"

definition AnnotationHosts :: string where
  "AnnotationHosts = ''pihole.io/hosts''"

definition AnnotationManagedHosts :: string where
  "AnnotationManagedHosts = ''pihole.io/managed-hosts''"

definition FinalizerName :: string where
  "FinalizerName = ''pihole.io/dns-cleanup''"

text \<open>
  A Go \<^verbatim>\<open>map[string]string\<close> of annotations is a partial map.  Reading a \<^verbatim>\<open>nil\<close>
  map behaves as reading an empty one, and every \<^verbatim>\<open>annotations != nil\<close> test of the
  source only guards reads, so \<^verbatim>\<open>nil\<close> is the empty map.
\<close>

type_synonym annotations = "string \<rightharpoonup> string"

text \<open>The loop of \<^verbatim>\<open>parseCommaSeparated\<close> over the parts of the split.\<close>

fun trimmedParts :: "string list \<Rightarrow> string list" where
  "trimmedParts [] = []"
| "trimmedParts (p # ps) =
     (if TrimSpace p \<noteq> [] then TrimSpace p # trimmedParts ps else trimmedParts ps)"

definition parseCommaSeparated :: "string \<Rightarrow> string list" where
  "parseCommaSeparated s = trimmedParts (Split s CHR '','')"

text \<open>The loop of \<^verbatim>\<open>extractHosts\<close> over the hosts the object's spec declares
  (\<^verbatim>\<open>spec.rules[].host\<close> of an Ingress, \<^verbatim>\<open>spec.hostnames\<close> of a Gateway route).\<close>

fun nonEmptyHosts :: "string list \<Rightarrow> string list" where
  "nonEmptyHosts [] = []"
| "nonEmptyHosts (h # hs) = (if h \<noteq> [] then h # nonEmptyHosts hs else nonEmptyHosts hs)"

text \<open>\<^verbatim>\<open>extractHosts\<close> of the Ingress, HTTPRoute, GRPCRoute and TLSRoute reconcilers (the
  four bodies are the same; a TCPRoute has no declared hosts, so its list is empty).\<close>

definition extractHosts :: "annotations \<Rightarrow> string list \<Rightarrow> string list" where
  "extractHosts ann specHosts =
     (case ann AnnotationHosts of
        Some hostsAnnotation \<Rightarrow>
          if hostsAnnotation \<noteq> [] then parseCommaSeparated hostsAnnotation
          else nonEmptyHosts specHosts
      | None \<Rightarrow> nonEmptyHosts specHosts)"

definition getManagedHosts :: "annotations \<Rightarrow> string list" where
  "getManagedHosts ann =
     (case ann AnnotationManagedHosts of
        None \<Rightarrow> []
      | Some managed \<Rightarrow> if managed = [] then [] else parseCommaSeparated managed)"

definition hasRegistrationAnnotation :: "annotations \<Rightarrow> bool" where
  "hasRegistrationAnnotation ann = (ann AnnotationRegister = Some ''true'')"

section \<open>IPv4 validation\<close>

text \<open>
  \<^verbatim>\<open>isValidIPv4\<close> calls \<^verbatim>\<open>net.ParseIP\<close> and \<^verbatim>\<open>IP.To4\<close> of the Go standard
  library, which is not part of the repository.  The library documents that
  \<^verbatim>\<open>ParseIP\<close> accepts IPv4 dotted decimal, IPv6 and IPv4-mapped IPv6
  (\<^verbatim>\<open>"::ffff:192.0.2.1"\<close>) forms and returns a 16-byte address, and that \<^verbatim>\<open>To4\<close>
  returns the 4-byte form of a 16-byte address whose first ten bytes are zero and whose
  next two are \<^verbatim>\<open>0xff\<close>.  The definitions below follow the library's parser
  (\<^verbatim>\<open>netip.ParseAddr\<close>, which \<^verbatim>\<open>net.ParseIP\<close> calls, refusing a zone).  An
  address is its list of bytes.
\<close>

definition byte :: "char \<Rightarrow> nat" where
  "byte c = of_char c"

definition isDigit :: "char \<Rightarrow> bool" where
  "isDigit c = (byte CHR ''0'' \<le> byte c \<and> byte c \<le> byte CHR ''9'')"

definition digitVal :: "char \<Rightarrow> nat" where
  "digitVal c = byte c - byte CHR ''0''"

definition isHexDigit :: "char \<Rightarrow> bool" where
  "isHexDigit c =
     (isDigit c \<or> (byte CHR ''a'' \<le> byte c \<and> byte c \<le> byte CHR ''f'')
      \<or> (byte CHR ''A'' \<le> byte c \<and> byte c \<le> byte CHR ''F''))"

definition hexDigitVal :: "char \<Rightarrow> nat" where
  "hexDigitVal c =
     (if isDigit c then digitVal c
      else if byte CHR ''a'' \<le> byte c \<and> byte c \<le> byte CHR ''f'' then byte c - byte CHR ''a'' + 10
      else byte c - byte CHR ''A'' + 10)"

text \<open>
  \<^verbatim>\<open>parseIPv4Fields\<close>: the loop over the bytes, with the byte before the current one
  (\<^verbatim>\<open>None\<close> at index 0), the value and the number of digits of the current octet, and the
  octets read so far.
\<close>

fun parseIPv4Loop :: "char option \<Rightarrow> nat \<Rightarrow> nat \<Rightarrow> nat list \<Rightarrow> string \<Rightarrow> nat list option" where
  "parseIPv4Loop prev val digLen fields [] =
     (if length fields < 3 then None else Some (fields @ [val]))"
| "parseIPv4Loop prev val digLen fields (c # cs) =
     (if isDigit c then
        (if digLen = 1 \<and> val = 0 then None
         else if val * 10 + digitVal c > 255 then None
         else parseIPv4Loop (Some c) (val * 10 + digitVal c) (digLen + 1) fields cs)
      else if c = CHR ''.'' then
        (if prev = None \<or> cs = [] \<or> prev = Some CHR ''.'' then None
         else if length fields = 3 then None
         else parseIPv4Loop (Some c) 0 0 (fields @ [val]) cs)
      else None)"

definition parseIPv4Fields :: "string \<Rightarrow> nat list option" where
  "parseIPv4Fields s = parseIPv4Loop None 0 0 [] s"

text \<open>The leading hexadecimal digits of a group, and their value.\<close>

fun hexLen :: "string \<Rightarrow> nat" where
  "hexLen [] = 0"
| "hexLen (c # cs) = (if isHexDigit c then Suc (hexLen cs) else 0)"

fun hexVal :: "nat \<Rightarrow> string \<Rightarrow> nat" where
  "hexVal acc [] = acc"
| "hexVal acc (c # cs) = hexVal (acc * 16 + hexDigitVal c) cs"

text \<open>
  The main loop of \<^verbatim>\<open>parseIPv6\<close>: the bytes written so far (the index \<^verbatim>\<open>i\<close> is
  their number), the position of the ellipsis and the rest of the string.  It ends with
  the state after the loop, or \<^verbatim>\<open>None\<close> for a parse error.
\<close>

function parseIPv6Loop :: "nat list \<Rightarrow> nat option \<Rightarrow> string \<Rightarrow> (nat list \<times> nat option \<times> string) option" where
  "parseIPv6Loop ip ellipsis s =
     (if \<not> length ip < 16 then Some (ip, ellipsis, s)
      else if hexLen s > 4 then None
      else if hexLen s = 0 then None
      else if hexLen s < length s \<and> s ! hexLen s = CHR ''.'' then
        (if ellipsis = None \<and> length ip \<noteq> 12 then None
         else if length ip + 4 > 16 then None
         else (case parseIPv4Fields s of
                 None \<Rightarrow> None
               | Some f \<Rightarrow> Some (ip @ f, ellipsis, [])))
      else if drop (hexLen s) s = [] then
        Some (ip @ [hexVal 0 (take (hexLen s) s) div 256, hexVal 0 (take (hexLen s) s) mod 256],
              ellipsis, [])
      else if hd (drop (hexLen s) s) \<noteq> CHR '':'' then None
      else if length (drop (hexLen s) s) = 1 then None
      else if hd (tl (drop (hexLen s) s)) = CHR '':'' then
        (if ellipsis \<noteq> None then None
         else if tl (tl (drop (hexLen s) s)) = [] then
           Some (ip @ [hexVal 0 (take (hexLen s) s) div 256, hexVal 0 (take (hexLen s) s) mod 256],
                 Some (length ip + 2), [])
         else parseIPv6Loop
                (ip @ [hexVal 0 (take (hexLen s) s) div 256, hexVal 0 (take (hexLen s) s) mod 256])
                (Some (length ip + 2)) (tl (tl (drop (hexLen s) s))))
      else parseIPv6Loop
             (ip @ [hexVal 0 (take (hexLen s) s) div 256, hexVal 0 (take (hexLen s) s) mod 256])
             ellipsis (tl (drop (hexLen s) s)))"
  by pat_completeness auto

termination
  by (relation "measure (\<lambda>(ip, ellipsis, s). 16 - length ip)") auto

declare parseIPv6Loop.simps [simp del]

definition parseIPv6 :: "string \<Rightarrow> nat list option" where
  "parseIPv6 s =
     (if CHR ''%'' \<in> set s then None
      else if length s \<ge> 2 \<and> s ! 0 = CHR '':'' \<and> s ! 1 = CHR '':'' \<and> drop 2 s = [] then
        Some (replicate 16 0)
      else
        (case (if length s \<ge> 2 \<and> s ! 0 = CHR '':'' \<and> s ! 1 = CHR '':''
               then parseIPv6Loop [] (Some 0) (drop 2 s)
               else parseIPv6Loop [] None s) of
           None \<Rightarrow> None
         | Some (ip, ellipsis, rest) \<Rightarrow>
             if rest \<noteq> [] then None
             else if length ip < 16 then
               (case ellipsis of
                  None \<Rightarrow> None
                | Some e \<Rightarrow> Some (take e ip @ replicate (16 - length ip) 0 @ drop e ip))
             else if ellipsis \<noteq> None then None
             else Some ip))"

text \<open>\<^verbatim>\<open>netip.ParseAddr\<close> looks for the first \<^verbatim>\<open>.\<close>, \<^verbatim>\<open>:\<close> or \<^verbatim>\<open>%\<close>; an IPv4
  address is returned in its 16-byte (IPv4-mapped) form, as \<^verbatim>\<open>net.ParseIP\<close> does.\<close>

fun firstMark :: "string \<Rightarrow> char option" where
  "firstMark [] = None"
| "firstMark (c # cs) =
     (if c = CHR ''.'' \<or> c = CHR '':'' \<or> c = CHR ''%'' then Some c else firstMark cs)"

definition ParseIP :: "string \<Rightarrow> nat list option" where
  "ParseIP s =
     (case firstMark s of
        None \<Rightarrow> None
      | Some m \<Rightarrow>
          if m = CHR ''.'' then
            (case parseIPv4Fields s of
               None \<Rightarrow> None
             | Some f \<Rightarrow> Some (replicate 10 0 @ [255, 255] @ f))
          else if m = CHR '':'' then parseIPv6 s
          else None)"

definition To4 :: "nat list \<Rightarrow> nat list option" where
  "To4 ip =
     (if length ip = 4 then Some ip
      else if length ip = 16 \<and> take 10 ip = replicate 10 0 \<and> ip ! 10 = 255 \<and> ip ! 11 = 255
        then Some (drop 12 ip)
      else None)"

definition isValidIPv4 :: "string \<Rightarrow> bool" where
  "isValidIPv4 ip = (case ParseIP ip of None \<Rightarrow> False | Some parsed \<Rightarrow> To4 parsed \<noteq> None)"

definition resolveTargetIP :: "annotations \<Rightarrow> string \<Rightarrow> string" where
  "resolveTargetIP ann defaultTargetIP =
     (case ann AnnotationTargetIP of
        Some ip \<Rightarrow>
          if ip \<noteq> [] then (if isValidIPv4 ip then ip else [])
          else defaultTargetIP
      | None \<Rightarrow> defaultTargetIP)"

section \<open>The DNS store client (internal/pihole)\<close>

record DNSRecord =
  IP :: string
  Domain :: string

text \<open>
  The requests the client sends.  The session id travels in the \<^verbatim>\<open>X-FTL-SID\<close> header;
  the entry of a \<^verbatim>\<open>PUT\<close> or \<^verbatim>\<open>DELETE\<close> is the \<^verbatim>\<open>"IP DOMAIN"\<close> token before
  \<^verbatim>\<open>url.PathEscape\<close>, which is injective.
\<close>

datatype request =
    AuthRequest string
  | ListRequest string
  | PutRequest string string
  | DeleteRequest string string

text \<open>
  A response body, as far as the client decodes it: a JSON object with a
  \<^verbatim>\<open>session\<close> (sid, csrf, validity), one with \<^verbatim>\<open>config.dns.hosts\<close>, another JSON
  object, or bytes that do not decode.  \<^verbatim>\<open>encoding/json\<close> leaves the fields a JSON
  object does not mention at their zero values, and fails on a \<^verbatim>\<open>validity\<close> that does
  not fit Go's 64-bit \<^verbatim>\<open>int\<close>.
\<close>

datatype body =
    SessionJSON string string int
  | HostsJSON "string list"
  | OtherJSON string
  | NotJSON string

datatype reply = NoReply | Reply nat body

fun decodeAuth :: "body \<Rightarrow> (string \<times> string \<times> int) option" where
  "decodeAuth (SessionJSON s cs v) =
     (if - (2 ^ 63) \<le> v \<and> v < 2 ^ 63 then Some (s, cs, v) else None)"
| "decodeAuth (HostsJSON hs) = Some ([], [], 0)"
| "decodeAuth (OtherJSON t) = Some ([], [], 0)"
| "decodeAuth (NotJSON t) = None"

fun decodeHosts :: "body \<Rightarrow> string list option" where
  "decodeHosts (HostsJSON hs) = Some hs"
| "decodeHosts (SessionJSON s cs v) = Some []"
| "decodeHosts (OtherJSON t) = Some []"
| "decodeHosts (NotJSON t) = None"

text \<open>The \<^verbatim>\<open>Message\<close> of an \<^verbatim>\<open>APIError\<close> is a literal or the bytes of a response body.\<close>

datatype message = Literal string | BodyText body

text \<open>
  Errors: \<^verbatim>\<open>*APIError\<close>, an error wrapped by \<^verbatim>\<open>fmt.Errorf("...: %w", err)\<close>, a
  failure of \<^verbatim>\<open>httpClient.Do\<close> (connection error, timeout, cancelled context), a JSON
  decoding error, and the errors of the Kubernetes client.
\<close>

datatype error =
    APIError nat message
  | Wrapped string error
  | TransportError
  | DecodeError
  | K8sNotFound
  | K8sError string

text \<open>
  The store is any state machine that answers requests and has a clock
  (\<^verbatim>\<open>time.Now()\<close>, in nanoseconds).  Answering a request may advance the clock.
\<close>

record 's server =
  handle :: "request \<Rightarrow> 's \<Rightarrow> reply \<times> 's"
  clock :: "'s \<Rightarrow> int"

text \<open>The world of a client: the store's state and the requests sent so far.\<close>

record 's world =
  store :: 's
  sent :: "request list"

text \<open>\<^verbatim>\<open>HTTPClient\<close>: the password and the cached session (\<^verbatim>\<open>valid\<close> in
  nanoseconds on the store's clock).\<close>

record client =
  password :: string
  sid :: string
  csrf :: string
  valid :: int

definition httpDo :: "'s server \<Rightarrow> request \<Rightarrow> 's world \<Rightarrow> reply \<times> 's world" where
  "httpDo sv rq w =
     (case handle sv rq (store w) of
        (rp, s') \<Rightarrow> (rp, \<lparr>store = s', sent = sent w @ [rq]\<rparr>))"

text \<open>Go's \<^verbatim>\<open>int\<close> and \<^verbatim>\<open>time.Duration\<close> are 64-bit: arithmetic wraps around, and
  \<^verbatim>\<open>/\<close> truncates towards zero.\<close>

definition wrap64 :: "int \<Rightarrow> int" where
  "wrap64 x = (x + 2 ^ 63) mod 2 ^ 64 - 2 ^ 63"

definition truncDiv :: "int \<Rightarrow> int \<Rightarrow> int" where
  "truncDiv a b =
     (if (a < 0) = (b < 0) then \<bar>a\<bar> div \<bar>b\<bar> else - (\<bar>a\<bar> div \<bar>b\<bar>))"

text \<open>\<^verbatim>\<open>time.Duration(Validity*80/100) * time.Second\<close>, in nanoseconds.\<close>

definition sessionLifetime :: "int \<Rightarrow> int" where
  "sessionLifetime validity = wrap64 (truncDiv (wrap64 (validity * 80)) 100 * 1000000000)"

definition authenticate :: "'s server \<Rightarrow> client \<Rightarrow> 's world \<Rightarrow> error option \<times> client \<times> 's world" where
  "authenticate sv c w =
     (case httpDo sv (AuthRequest (password c)) w of
        (NoReply, w1) \<Rightarrow> (Some (Wrapped ''executing auth request'' TransportError), c, w1)
      | (Reply code b, w1) \<Rightarrow>
          if code = 401 then (Some (APIError code (Literal ''invalid password'')), c, w1)
          else if code \<noteq> 200 then (Some (APIError code (BodyText b)), c, w1)
          else (case decodeAuth b of
                  None \<Rightarrow> (Some (Wrapped ''decoding auth response'' DecodeError), c, w1)
                | Some (s, cs, v) \<Rightarrow>
                    (None,
                     c\<lparr>sid := s, csrf := cs,
                       valid := clock sv (store w1) + sessionLifetime v\<rparr>,
                     w1)))"

definition sessionValid :: "'s server \<Rightarrow> client \<Rightarrow> 's world \<Rightarrow> bool" where
  "sessionValid sv c w = (valid c > clock sv (store w) \<and> sid c \<noteq> [])"

definition ensureAuthenticated :: "'s server \<Rightarrow> client \<Rightarrow> 's world \<Rightarrow> error option \<times> client \<times> 's world" where
  "ensureAuthenticated sv c w =
     (if sessionValid sv c w then (None, c, w) else authenticate sv c w)"

text \<open>The loop of \<^verbatim>\<open>ListRecords\<close> over the entries of the hosts array.\<close>

fun hostRecords :: "string list \<Rightarrow> DNSRecord list" where
  "hostRecords [] = []"
| "hostRecords (entry # es) =
     (if length (Fields entry) \<ge> 2
      then \<lparr>IP = Fields entry ! 0, Domain = Fields entry ! 1\<rparr> # hostRecords es
      else hostRecords es)"

text \<open>
  \<^verbatim>\<open>ListRecords\<close>, \<^verbatim>\<open>CreateRecord\<close> and \<^verbatim>\<open>DeleteRecord\<close> call themselves after
  a 401 and a successful re-authentication, so they need not return.  The first argument
  bounds the depth of these calls; \<^verbatim>\<open>None\<close> is a run that exceeds it.
\<close>

fun ListRecords :: "nat \<Rightarrow> 's server \<Rightarrow> client \<Rightarrow> 's world
    \<Rightarrow> ((error + DNSRecord list) \<times> client \<times> 's world) option" where
  "ListRecords 0 sv c w = None"
| "ListRecords (Suc n) sv c w =
     (case ensureAuthenticated sv c w of
        (Some e, c1, w1) \<Rightarrow> Some (Inl (Wrapped ''authentication failed'' e), c1, w1)
      | (None, c1, w1) \<Rightarrow>
          (case httpDo sv (ListRequest (sid c1)) w1 of
             (NoReply, w2) \<Rightarrow> Some (Inl (Wrapped ''executing request'' TransportError), c1, w2)
           | (Reply code b, w2) \<Rightarrow>
               if code = 401 then
                 (case authenticate sv c1 w2 of
                    (Some e, c3, w3) \<Rightarrow>
                      Some (Inl (Wrapped ''re-authentication failed'' e), c3, w3)
                  | (None, c3, w3) \<Rightarrow> ListRecords n sv c3 w3)
               else if code \<noteq> 200 then Some (Inl (APIError code (BodyText b)), c1, w2)
               else (case decodeHosts b of
                       None \<Rightarrow> Some (Inl (Wrapped ''decoding response'' DecodeError), c1, w2)
                     | Some hs \<Rightarrow> Some (Inr (hostRecords hs), c1, w2))))"

fun CreateRecord :: "nat \<Rightarrow> 's server \<Rightarrow> DNSRecord \<Rightarrow> client \<Rightarrow> 's world
    \<Rightarrow> (error option \<times> client \<times> 's world) option" where
  "CreateRecord 0 sv r c w = None"
| "CreateRecord (Suc n) sv r c w =
     (case ensureAuthenticated sv c w of
        (Some e, c1, w1) \<Rightarrow> Some (Some (Wrapped ''authentication failed'' e), c1, w1)
      | (None, c1, w1) \<Rightarrow>
          (case httpDo sv (PutRequest (sid c1) (IP r @ '' '' @ Domain r)) w1 of
             (NoReply, w2) \<Rightarrow> Some (Some (Wrapped ''executing request'' TransportError), c1, w2)
           | (Reply code b, w2) \<Rightarrow>
               if code = 401 then
                 (case authenticate sv c1 w2 of
                    (Some e, c3, w3) \<Rightarrow>
                      Some (Some (Wrapped ''re-authentication failed'' e), c3, w3)
                  | (None, c3, w3) \<Rightarrow> CreateRecord n sv r c3 w3)
               else if code \<noteq> 200 \<and> code \<noteq> 201 \<and> code \<noteq> 204
                 then Some (Some (APIError code (BodyText b)), c1, w2)
               else Some (None, c1, w2)))"

text \<open>The scan of \<^verbatim>\<open>DeleteRecord\<close> for the first record of the domain; the empty
  string when there is none.\<close>

fun entryToDelete :: "string \<Rightarrow> DNSRecord list \<Rightarrow> string" where
  "entryToDelete domain [] = []"
| "entryToDelete domain (r # rs) =
     (if Domain r = domain then IP r @ '' '' @ Domain r else entryToDelete domain rs)"

fun DeleteRecord :: "nat \<Rightarrow> 's server \<Rightarrow> string \<Rightarrow> client \<Rightarrow> 's world
    \<Rightarrow> (error option \<times> client \<times> 's world) option" where
  "DeleteRecord 0 sv domain c w = None"
| "DeleteRecord (Suc n) sv domain c w =
     (case ensureAuthenticated sv c w of
        (Some e, c1, w1) \<Rightarrow> Some (Some (Wrapped ''authentication failed'' e), c1, w1)
      | (None, c1, w1) \<Rightarrow>
          (case ListRecords (Suc n) sv c1 w1 of
             None \<Rightarrow> None
           | Some (Inl e, c2, w2) \<Rightarrow>
               Some (Some (Wrapped ''listing records to find entry'' e), c2, w2)
           | Some (Inr records, c2, w2) \<Rightarrow>
               if entryToDelete domain records = [] then Some (None, c2, w2)
               else
                 (case httpDo sv (DeleteRequest (sid c2) (entryToDelete domain records)) w2 of
                    (NoReply, w3) \<Rightarrow>
                      Some (Some (Wrapped ''executing request'' TransportError), c2, w3)
                  | (Reply code b, w3) \<Rightarrow>
                      if code = 401 then
                        (case authenticate sv c2 w3 of
                           (Some e, c4, w4) \<Rightarrow>
                             Some (Some (Wrapped ''re-authentication failed'' e), c4, w4)
                         | (None, c4, w4) \<Rightarrow> DeleteRecord n sv domain c4 w4)
                      else if code \<noteq> 200 \<and> code \<noteq> 204 \<and> code \<noteq> 404
                        then Some (Some (APIError code (BodyText b)), c2, w3)
                      else Some (None, c2, w3))))"

definition Healthy :: "nat \<Rightarrow> 's server \<Rightarrow> client \<Rightarrow> 's world \<Rightarrow> (bool \<times> client \<times> 's world) option" where
  "Healthy n sv c w =
     (case ensureAuthenticated sv c w of
        (Some e, c1, w1) \<Rightarrow> Some (False, c1, w1)
      | (None, c1, w1) \<Rightarrow>
          (case ListRecords n sv c1 w1 of
             None \<Rightarrow> None
           | Some (Inl e, c2, w2) \<Rightarrow> Some (False, c2, w2)
           | Some (Inr records, c2, w2) \<Rightarrow> Some (True, c2, w2)))"

text \<open>\<^verbatim>\<open>APIError.IsRetryable\<close>, on the status code of the error.\<close>

definition IsRetryable :: "nat \<Rightarrow> bool" where
  "IsRetryable statusCode = (statusCode \<noteq> 400)"

text \<open>\<^verbatim>\<open>NewClient\<close>: no session yet (the zero time).\<close>

definition NewClient :: "string \<Rightarrow> client" where
  "NewClient pw = \<lparr>password = pw, sid = [], csrf = [], valid = 0\<rparr>"

section \<open>The reconcilers (internal/controller)\<close>

text \<open>
  A routing object, as far as the reconcilers read it: its annotations, its finalizers,
  whether its deletion timestamp is set, and the hosts its spec declares.
\<close>

record obj =
  annotations :: annotations
  finalizers :: "string list"
  deleting :: bool
  specHosts :: "string list"

definition ContainsFinalizer :: "obj \<Rightarrow> string \<Rightarrow> bool" where
  "ContainsFinalizer ob f = (f \<in> set (finalizers ob))"

definition AddFinalizer :: "obj \<Rightarrow> string \<Rightarrow> obj" where
  "AddFinalizer ob f = (if f \<in> set (finalizers ob) then ob else ob\<lparr>finalizers := finalizers ob @ [f]\<rparr>)"

definition RemoveFinalizer :: "obj \<Rightarrow> string \<Rightarrow> obj" where
  "RemoveFinalizer ob f = ob\<lparr>finalizers := filter (\<lambda>x. x \<noteq> f) (finalizers ob)\<rparr>"

text \<open>
  The reconcilers reach the world through two interfaces: \<^verbatim>\<open>pihole.Client\<close> and the
  Kubernetes client (\<^verbatim>\<open>Get\<close> and \<^verbatim>\<open>Update\<close> of the one object being reconciled).
  Both are parameters: any functions over any state \<^typ>\<open>'e\<close>.
\<close>

record 'e env =
  listRecords :: "'e \<Rightarrow> (error + DNSRecord list) \<times> 'e"
  createRecord :: "DNSRecord \<Rightarrow> 'e \<Rightarrow> error option \<times> 'e"
  deleteRecord :: "string \<Rightarrow> 'e \<Rightarrow> error option \<times> 'e"
  k8sGet :: "'e \<Rightarrow> (error + obj) \<times> 'e"
  k8sUpdate :: "obj \<Rightarrow> 'e \<Rightarrow> error option \<times> 'e"

text \<open>Every call through the interfaces is recorded with what it returned.\<close>

datatype event =
    Listed "error + DNSRecord list"
  | Created DNSRecord "error option"
  | Deleted string "error option"
  | Got "error + obj"
  | Updated obj "error option"

type_synonym 'e run = "'e \<times> event list"

definition callList :: "'e env \<Rightarrow> 'e run \<Rightarrow> (error + DNSRecord list) \<times> 'e run" where
  "callList env st =
     (case listRecords env (fst st) of (r, e') \<Rightarrow> (r, (e', snd st @ [Listed r])))"

definition callCreate :: "'e env \<Rightarrow> DNSRecord \<Rightarrow> 'e run \<Rightarrow> error option \<times> 'e run" where
  "callCreate env rec st =
     (case createRecord env rec (fst st) of (r, e') \<Rightarrow> (r, (e', snd st @ [Created rec r])))"

definition callDelete :: "'e env \<Rightarrow> string \<Rightarrow> 'e run \<Rightarrow> error option \<times> 'e run" where
  "callDelete env host st =
     (case deleteRecord env host (fst st) of (r, e') \<Rightarrow> (r, (e', snd st @ [Deleted host r])))"

definition callGet :: "'e env \<Rightarrow> 'e run \<Rightarrow> (error + obj) \<times> 'e run" where
  "callGet env st =
     (case k8sGet env (fst st) of (r, e') \<Rightarrow> (r, (e', snd st @ [Got r])))"

definition callUpdate :: "'e env \<Rightarrow> obj \<Rightarrow> 'e run \<Rightarrow> error option \<times> 'e run" where
  "callUpdate env ob st =
     (case k8sUpdate env ob (fst st) of (r, e') \<Rightarrow> (r, (e', snd st @ [Updated ob r])))"

text \<open>\<^verbatim>\<open>ctrl.Result\<close>: the delay of the requested retry in nanoseconds (0: none).\<close>

record result =
  RequeueAfter :: int

definition second :: int where
  "second = 1000000000"

type_synonym outcome = "result \<times> error option"

definition handleAPIError :: "error \<Rightarrow> outcome" where
  "handleAPIError err =
     (case err of
        APIError statusCode msg \<Rightarrow>
          if \<not> IsRetryable statusCode then (\<lparr>RequeueAfter = 0\<rparr>, None)
          else (\<lparr>RequeueAfter = 30 * second\<rparr>, Some err)
      | _ \<Rightarrow> (\<lparr>RequeueAfter = 30 * second\<rparr>, Some err))"

text \<open>\<^verbatim>\<open>currentRecordMap\<close>: a later record of a domain replaces an earlier one.\<close>

fun recordMap :: "(string \<rightharpoonup> string) \<Rightarrow> DNSRecord list \<Rightarrow> (string \<rightharpoonup> string)" where
  "recordMap m [] = m"
| "recordMap m (r # rs) = recordMap (m(Domain r \<mapsto> IP r)) rs"

text \<open>
  The three loops return the error that the source hands to \<^verbatim>\<open>handleAPIError\<close>, or
  \<^verbatim>\<open>None\<close> when they run to their end.  The loop that syncs the desired hosts:
\<close>

fun syncDesired :: "'e env \<Rightarrow> (string \<rightharpoonup> string) \<Rightarrow> string \<Rightarrow> string list \<Rightarrow> 'e run
    \<Rightarrow> error option \<times> 'e run" where
  "syncDesired env current targetIP [] st = (None, st)"
| "syncDesired env current targetIP (host # hosts) st =
     (case current host of
        Some currentIP \<Rightarrow>
          if currentIP \<noteq> targetIP then
            (case callDelete env host st of
               (Some err, st1) \<Rightarrow> (Some err, st1)
             | (None, st1) \<Rightarrow>
                 (case callCreate env \<lparr>IP = targetIP, Domain = host\<rparr> st1 of
                    (Some err, st2) \<Rightarrow> (Some err, st2)
                  | (None, st2) \<Rightarrow> syncDesired env current targetIP hosts st2))
          else syncDesired env current targetIP hosts st
      | None \<Rightarrow>
          (case callCreate env \<lparr>IP = targetIP, Domain = host\<rparr> st of
             (Some err, st2) \<Rightarrow> (Some err, st2)
           | (None, st2) \<Rightarrow> syncDesired env current targetIP hosts st2))"

text \<open>The loop that deletes the managed hosts that are no longer desired:\<close>

fun pruneStale :: "'e env \<Rightarrow> string list \<Rightarrow> string list \<Rightarrow> 'e run \<Rightarrow> error option \<times> 'e run" where
  "pruneStale env desiredHosts [] st = (None, st)"
| "pruneStale env desiredHosts (host # hosts) st =
     (if host \<notin> set desiredHosts then
        (case callDelete env host st of
           (Some err, st1) \<Rightarrow> (Some err, st1)
         | (None, st1) \<Rightarrow> pruneStale env desiredHosts hosts st1)
      else pruneStale env desiredHosts hosts st)"

text \<open>The loop of the deletion handlers over the managed hosts:\<close>

fun deleteAll :: "'e env \<Rightarrow> string list \<Rightarrow> 'e run \<Rightarrow> error option \<times> 'e run" where
  "deleteAll env [] st = (None, st)"
| "deleteAll env (host # hosts) st =
     (case callDelete env host st of
        (Some err, st1) \<Rightarrow> (Some err, st1)
      | (None, st1) \<Rightarrow> deleteAll env hosts st1)"

text \<open>\<^verbatim>\<open>handleRouteDeletion\<close> (Gateway routes) and \<^verbatim>\<open>handleDeletion\<close> (Ingress, where
  the annotations are the object's own).\<close>

definition handleRouteDeletion :: "'e env \<Rightarrow> obj \<Rightarrow> annotations \<Rightarrow> 'e run \<Rightarrow> outcome \<times> 'e run" where
  "handleRouteDeletion env ob ann st =
     (if \<not> ContainsFinalizer ob FinalizerName then ((\<lparr>RequeueAfter = 0\<rparr>, None), st)
      else
        (case deleteAll env (getManagedHosts ann) st of
           (Some err, st1) \<Rightarrow> (handleAPIError err, st1)
         | (None, st1) \<Rightarrow>
             (case callUpdate env (RemoveFinalizer ob FinalizerName) st1 of
                (Some err, st2) \<Rightarrow> ((\<lparr>RequeueAfter = 0\<rparr>, Some err), st2)
              | (None, st2) \<Rightarrow> ((\<lparr>RequeueAfter = 0\<rparr>, None), st2))))"

definition handleDeletion :: "'e env \<Rightarrow> obj \<Rightarrow> 'e run \<Rightarrow> outcome \<times> 'e run" where
  "handleDeletion env ingress st = handleRouteDeletion env ingress (annotations ingress) st"

text \<open>\<^verbatim>\<open>updateManagedHosts\<close>: on a fresh copy of the object.\<close>

definition updateManagedHosts :: "'e env \<Rightarrow> string list \<Rightarrow> 'e run \<Rightarrow> error option \<times> 'e run" where
  "updateManagedHosts env hosts st =
     (case callGet env st of
        (Inl err, st1) \<Rightarrow> (Some err, st1)
      | (Inr fresh, st1) \<Rightarrow>
          callUpdate env
            (fresh\<lparr>annotations :=
               (if hosts = [] then (annotations fresh)(AnnotationManagedHosts := None)
                else (annotations fresh)(AnnotationManagedHosts \<mapsto> Join hosts '',''))\<rparr>)
            st1)"

text \<open>The part of both reconcilers from "Get desired state" on: the same statements in
  \<^verbatim>\<open>reconcileRoute\<close> and in the Ingress \<^verbatim>\<open>Reconcile\<close>.\<close>

definition syncObject :: "'e env \<Rightarrow> string \<Rightarrow> annotations \<Rightarrow> string list \<Rightarrow> 'e run \<Rightarrow> outcome \<times> 'e run" where
  "syncObject env defaultTargetIP ann desiredHosts st =
     (if desiredHosts = [] then ((\<lparr>RequeueAfter = 0\<rparr>, None), st)
      else if resolveTargetIP ann defaultTargetIP = [] then ((\<lparr>RequeueAfter = 0\<rparr>, None), st)
      else
        (case callList env st of
           (Inl err, st1) \<Rightarrow> ((\<lparr>RequeueAfter = 30 * second\<rparr>, Some err), st1)
         | (Inr currentRecords, st1) \<Rightarrow>
             (case syncDesired env (recordMap Map.empty currentRecords)
                     (resolveTargetIP ann defaultTargetIP) desiredHosts st1 of
                (Some err, st2) \<Rightarrow> (handleAPIError err, st2)
              | (None, st2) \<Rightarrow>
                  (case pruneStale env desiredHosts (getManagedHosts ann) st2 of
                     (Some err, st3) \<Rightarrow> (handleAPIError err, st3)
                   | (None, st3) \<Rightarrow>
                       (case updateManagedHosts env desiredHosts st3 of
                          (Some err, st4) \<Rightarrow> ((\<lparr>RequeueAfter = 10 * second\<rparr>, Some err), st4)
                        | (None, st4) \<Rightarrow> ((\<lparr>RequeueAfter = 0\<rparr>, None), st4))))))"

text \<open>\<^verbatim>\<open>reconcileRoute\<close>: the hosts were extracted by the caller from the object as
  first fetched; the annotations are read again after the finalizer was added.\<close>

definition reconcileRoute :: "'e env \<Rightarrow> string \<Rightarrow> obj \<Rightarrow> annotations \<Rightarrow> string list \<Rightarrow> 'e run
    \<Rightarrow> outcome \<times> 'e run" where
  "reconcileRoute env defaultTargetIP ob ann extractedHosts st =
     (if deleting ob then handleRouteDeletion env ob ann st
      else if \<not> hasRegistrationAnnotation ann then
        (if ContainsFinalizer ob FinalizerName then handleRouteDeletion env ob ann st
         else ((\<lparr>RequeueAfter = 0\<rparr>, None), st))
      else if \<not> ContainsFinalizer ob FinalizerName then
        (case callUpdate env (AddFinalizer ob FinalizerName) st of
           (Some err, st1) \<Rightarrow> ((\<lparr>RequeueAfter = 0\<rparr>, Some err), st1)
         | (None, st1) \<Rightarrow>
             (case callGet env st1 of
                (Inl err, st2) \<Rightarrow> ((\<lparr>RequeueAfter = 0\<rparr>, Some err), st2)
              | (Inr ob', st2) \<Rightarrow>
                  syncObject env defaultTargetIP (annotations ob') extractedHosts st2))
      else syncObject env defaultTargetIP ann extractedHosts st)"

text \<open>\<^verbatim>\<open>Reconcile\<close> of a Gateway route reconciler: fetch, then \<^verbatim>\<open>reconcileRoute\<close>.\<close>

definition RouteReconcile :: "'e env \<Rightarrow> string \<Rightarrow> 'e run \<Rightarrow> outcome \<times> 'e run" where
  "RouteReconcile env defaultTargetIP st =
     (case callGet env st of
        (Inl err, st1) \<Rightarrow>
          if err = K8sNotFound then ((\<lparr>RequeueAfter = 0\<rparr>, None), st1)
          else ((\<lparr>RequeueAfter = 0\<rparr>, Some err), st1)
      | (Inr route, st1) \<Rightarrow>
          reconcileRoute env defaultTargetIP route (annotations route)
            (extractHosts (annotations route) (specHosts route)) st1)"

text \<open>\<^verbatim>\<open>IngressReconciler.Reconcile\<close>: everything is read from the Ingress, also after
  the re-fetch that follows the added finalizer.\<close>

definition IngressReconcile :: "'e env \<Rightarrow> string \<Rightarrow> 'e run \<Rightarrow> outcome \<times> 'e run" where
  "IngressReconcile env defaultTargetIP st =
     (case callGet env st of
        (Inl err, st1) \<Rightarrow>
          if err = K8sNotFound then ((\<lparr>RequeueAfter = 0\<rparr>, None), st1)
          else ((\<lparr>RequeueAfter = 0\<rparr>, Some err), st1)
      | (Inr ingress, st1) \<Rightarrow>
          if deleting ingress then handleDeletion env ingress st1
          else if \<not> hasRegistrationAnnotation (annotations ingress) then
            (if ContainsFinalizer ingress FinalizerName then handleDeletion env ingress st1
             else ((\<lparr>RequeueAfter = 0\<rparr>, None), st1))
          else if \<not> ContainsFinalizer ingress FinalizerName then
            (case callUpdate env (AddFinalizer ingress FinalizerName) st1 of
               (Some err, st2) \<Rightarrow> ((\<lparr>RequeueAfter = 0\<rparr>, Some err), st2)
             | (None, st2) \<Rightarrow>
                 (case callGet env st2 of
                    (Inl err, st3) \<Rightarrow> ((\<lparr>RequeueAfter = 0\<rparr>, Some err), st3)
                  | (Inr ingress', st3) \<Rightarrow>
                      syncObject env defaultTargetIP (annotations ingress')
                        (extractHosts (annotations ingress') (specHosts ingress')) st3))
          else
            syncObject env defaultTargetIP (annotations ingress)
              (extractHosts (annotations ingress) (specHosts ingress)) st1)"

section \<open>Properties of request logs and traces\<close>

text \<open>The requests that change the store.\<close>

fun isMutation :: "request \<Rightarrow> bool" where
  "isMutation (AuthRequest p) = False"
| "isMutation (ListRequest x) = False"
| "isMutation (PutRequest x e) = True"
| "isMutation (DeleteRequest x e) = True"

text \<open>The log of one world continues the log of another.\<close>

definition extends :: "'s world \<Rightarrow> 's world \<Rightarrow> bool" where
  "extends w w' = (\<exists>rest. sent w' = sent w @ rest)"

text \<open>The store events of a trace stay within a set of hosts: they are creations, or
  deletions of hosts of the set.\<close>

fun storeEventsWithin :: "string set \<Rightarrow> event list \<Rightarrow> bool" where
  "storeEventsWithin S [] = True"
| "storeEventsWithin S (Created rec r # evs) = storeEventsWithin S evs"
| "storeEventsWithin S (Deleted h r # evs) = (h \<in> S \<and> storeEventsWithin S evs)"
| "storeEventsWithin S (ev # evs) = False"

text \<open>
  A deletion is justified by an object when the host is in the object's managed-hosts
  annotation or among its desired hosts; the deletions of a trace are justified when each
  is justified by an object that the reconcile has fetched before it.
\<close>

definition justifiedBy :: "obj list \<Rightarrow> string \<Rightarrow> bool" where
  "justifiedBy seen h =
     (\<exists>ob \<in> set seen. h \<in> set (getManagedHosts (annotations ob))
        \<or> h \<in> set (extractHosts (annotations ob) (specHosts ob)))"

fun deletesJustified :: "obj list \<Rightarrow> event list \<Rightarrow> bool" where
  "deletesJustified seen [] = True"
| "deletesJustified seen (Got (Inr ob) # evs) = deletesJustified (ob # seen) evs"
| "deletesJustified seen (Deleted h r # evs) = (justifiedBy seen h \<and> deletesJustified seen evs)"
| "deletesJustified seen (ev # evs) = deletesJustified seen evs"

text \<open>The objects a trace fetched.\<close>

fun gotObjs :: "event list \<Rightarrow> obj list" where
  "gotObjs [] = []"
| "gotObjs (Got (Inr ob) # evs) = ob # gotObjs evs"
| "gotObjs (ev # evs) = gotObjs evs"

text \<open>What a deletion cleanup may leave in the trace of a run that started with an empty one.\<close>

definition cleanupTrace :: "obj \<Rightarrow> annotations \<Rightarrow> outcome \<Rightarrow> event list \<Rightarrow> bool" where
  "cleanupTrace ob ann out tr =
     ((\<not> ContainsFinalizer ob FinalizerName \<and> tr = [] \<and> out = (\<lparr>RequeueAfter = 0\<rparr>, None))
      \<or> (\<exists>r. tr = map (\<lambda>h. Deleted h None) (getManagedHosts ann)
                    @ [Updated (RemoveFinalizer ob FinalizerName) r]
              \<and> out = (\<lparr>RequeueAfter = 0\<rparr>, r))
      \<or> (\<exists>pre h post err. getManagedHosts ann = pre @ h # post
              \<and> tr = map (\<lambda>h. Deleted h None) pre @ [Deleted h (Some err)]
              \<and> out = handleAPIError err))"

text \<open>The errors of the store calls of a trace that failed.\<close>

fun failures :: "event list \<Rightarrow> error list" where
  "failures [] = []"
| "failures (Created rec (Some err) # evs) = err # failures evs"
| "failures (Deleted h (Some err) # evs) = err # failures evs"
| "failures (ev # evs) = failures evs"

text \<open>The status code an error carries, through any wrapping.\<close>

fun statusOf :: "error \<Rightarrow> nat option" where
  "statusOf (APIError statusCode msg) = Some statusCode"
| "statusOf (Wrapped s err) = statusOf err"
| "statusOf err = None"

text \<open>The failures a loop adds to the trace, from what it returns.\<close>

definition failedWith :: "error option \<Rightarrow> error list" where
  "failedWith r = (case r of None \<Rightarrow> [] | Some err \<Rightarrow> [err])"

text \<open>A run is settled by its failures: none, or one whose error decided the outcome.\<close>

definition settled :: "outcome \<Rightarrow> event list \<Rightarrow> bool" where
  "settled out new = (failures new = [] \<or> (\<exists>err. failures new = [err] \<and> out = handleAPIError err))"

text \<open>The creations and deletions of a trace.\<close>

fun storeMutations :: "event list \<Rightarrow> event list" where
  "storeMutations [] = []"
| "storeMutations (Created rec r # evs) = Created rec r # storeMutations evs"
| "storeMutations (Deleted h r # evs) = Deleted h r # storeMutations evs"
| "storeMutations (ev # evs) = storeMutations evs"

section \<open>Stores, clients and environments used in examples\<close>

text \<open>A store that rejects every request but authentication.\<close>

definition unauthorizedServer :: "unit server" where
  "unauthorizedServer =
     \<lparr>handle = (\<lambda>rq s. case rq of
                   AuthRequest p \<Rightarrow> (Reply 200 (SessionJSON ''sid-1'' ''csrf-1'' 300), s)
                 | ListRequest x \<Rightarrow> (Reply 401 (OtherJSON []), s)
                 | PutRequest x e \<Rightarrow> (Reply 401 (OtherJSON []), s)
                 | DeleteRequest x e \<Rightarrow> (Reply 401 (OtherJSON []), s)),
      clock = (\<lambda>s. 0)\<rparr>"

text \<open>A store that rejects the next \<open>k\<close> listings, then answers.\<close>

definition flakyServer :: "nat server" where
  "flakyServer =
     \<lparr>handle = (\<lambda>rq k. case rq of
                   AuthRequest p \<Rightarrow> (Reply 200 (SessionJSON ''sid-1'' ''csrf-1'' 300), k)
                 | ListRequest x \<Rightarrow>
                     if k > 0 then (Reply 401 (OtherJSON []), k - 1)
                     else (Reply 200 (HostsJSON [''10.0.0.1 app.local'']), k)
                 | PutRequest x e \<Rightarrow> (Reply 401 (OtherJSON []), k)
                 | DeleteRequest x e \<Rightarrow> (Reply 401 (OtherJSON []), k)),
      clock = (\<lambda>k. 0)\<rparr>"

text \<open>A store that follows the wire protocol, after the mock server of the client's tests:
  it holds the host entries, knows one password and hands out one session id.\<close>

definition storeServer :: "string list server" where
  "storeServer =
     \<lparr>handle = (\<lambda>rq hosts. case rq of
                   AuthRequest p \<Rightarrow>
                     if p = ''secret'' then (Reply 200 (SessionJSON ''sid-1'' ''csrf-1'' 300), hosts)
                     else (Reply 401 (OtherJSON ''unauthorized''), hosts)
                 | ListRequest x \<Rightarrow>
                     if x = ''sid-1'' then (Reply 200 (HostsJSON hosts), hosts)
                     else (Reply 401 (OtherJSON []), hosts)
                 | PutRequest x e \<Rightarrow>
                     if x = ''sid-1'' then (Reply 201 (OtherJSON []), hosts @ [e])
                     else (Reply 401 (OtherJSON []), hosts)
                 | DeleteRequest x e \<Rightarrow>
                     if x \<noteq> ''sid-1'' then (Reply 401 (OtherJSON []), hosts)
                     else if e \<in> set hosts then (Reply 204 (OtherJSON []), remove1 e hosts)
                     else (Reply 404 (OtherJSON []), hosts)),
      clock = (\<lambda>hosts. 1000)\<rparr>"

definition sessionClient :: client where
  "sessionClient = \<lparr>password = ''secret'', sid = ''sid-0'', csrf = ''csrf-0'', valid = 1\<rparr>"

definition freshSession :: client where
  "freshSession = \<lparr>password = ''secret'', sid = ''sid-1'', csrf = ''csrf-1'', valid = 240000001000\<rparr>"

text \<open>A store that advertises a validity of 20000000000 seconds (some 634 years).\<close>

definition longSessionServer :: "unit server" where
  "longSessionServer =
     \<lparr>handle = (\<lambda>rq s. (Reply 200 (SessionJSON ''sid-1'' ''csrf-1'' 20000000000), s)),
      clock = (\<lambda>s. 1000)\<rparr>"

text \<open>A store that answers every listing with 400.\<close>

definition listRejectingServer :: "unit server" where
  "listRejectingServer =
     \<lparr>handle = (\<lambda>rq s. case rq of
                   AuthRequest p \<Rightarrow> (Reply 200 (SessionJSON ''sid-1'' ''csrf-1'' 300), s)
                 | ListRequest x \<Rightarrow> (Reply 400 (OtherJSON []), s)
                 | PutRequest x e \<Rightarrow> (Reply 201 (OtherJSON []), s)
                 | DeleteRequest x e \<Rightarrow> (Reply 204 (OtherJSON []), s)),
      clock = (\<lambda>s. 1000)\<rparr>"

text \<open>An environment whose store lists nothing and refuses every creation and deletion
  with one status code; the Kubernetes side holds the object.\<close>

definition rejectingEnv :: "nat \<Rightarrow> obj env" where
  "rejectingEnv code =
     \<lparr>listRecords = (\<lambda>s. (Inr [], s)),
      createRecord = (\<lambda>rec s. (Some (APIError code (BodyText (OtherJSON []))), s)),
      deleteRecord = (\<lambda>h s. (Some (APIError code (BodyText (OtherJSON []))), s)),
      k8sGet = (\<lambda>s. (Inr s, s)),
      k8sUpdate = (\<lambda>ob s. (None, ob))\<rparr>"

definition registeredIngress :: obj where
  "registeredIngress =
     \<lparr>annotations = [AnnotationRegister \<mapsto> ''true''],
      finalizers = [FinalizerName],
      deleting = False,
      specHosts = [''app.local'']\<rparr>"

text \<open>An environment that keeps what it is given: the store is a list of records, created
  records are appended, a deletion removes the first record of the domain; the Kubernetes
  side holds the object.\<close>

record memory =
  memRecords :: "DNSRecord list"
  memObject :: obj

fun removeDomain :: "string \<Rightarrow> DNSRecord list \<Rightarrow> DNSRecord list" where
  "removeDomain h [] = []"
| "removeDomain h (r # rs) = (if Domain r = h then rs else r # removeDomain h rs)"

definition memoryEnv :: "memory env" where
  "memoryEnv =
     \<lparr>listRecords = (\<lambda>m. (Inr (memRecords m), m)),
      createRecord = (\<lambda>rec m. (None, m\<lparr>memRecords := memRecords m @ [rec]\<rparr>)),
      deleteRecord = (\<lambda>h m. (None, m\<lparr>memRecords := removeDomain h (memRecords m)\<rparr>)),
      k8sGet = (\<lambda>m. (Inr (memObject m), m)),
      k8sUpdate = (\<lambda>ob m. (None, m\<lparr>memObject := ob\<rparr>))\<rparr>"

definition twoHostIngress :: obj where
  "twoHostIngress =
     \<lparr>annotations = [AnnotationRegister \<mapsto> ''true''],
      finalizers = [FinalizerName],
      deleting = False,
      specHosts = [''app.local'', ''api.local'']\<rparr>"

definition syncedIngress :: obj where
  "syncedIngress =
     twoHostIngress\<lparr>annotations :=
       [AnnotationRegister \<mapsto> ''true'', AnnotationManagedHosts \<mapsto> ''app.local,api.local'']\<rparr>"

definition syncedRecords :: "DNSRecord list" where
  "syncedRecords =
     [\<lparr>IP = ''192.168.1.100'', Domain = ''app.local''\<rparr>,
      \<lparr>IP = ''192.168.1.100'', Domain = ''api.local''\<rparr>]"

definition commaIngress :: obj where
  "commaIngress =
     \<lparr>annotations = [AnnotationRegister \<mapsto> ''true''],
      finalizers = [FinalizerName],
      deleting = False,
      specHosts = [''a,b'']\<rparr>"

definition commaSynced :: obj where
  "commaSynced =
     commaIngress\<lparr>annotations :=
       [AnnotationRegister \<mapsto> ''true'', AnnotationManagedHosts \<mapsto> ''a,b'']\<rparr>"




definition staleIngress :: obj where
  "staleIngress =
     \<lparr>annotations = [AnnotationRegister \<mapsto> ''true'', AnnotationManagedHosts \<mapsto> ''old.local''],
      finalizers = [FinalizerName],
      deleting = False,
      specHosts = [''app.local'']\<rparr>"

definition deletingIngress :: obj where
  "deletingIngress = syncedIngress\<lparr>deleting := True\<rparr>"

section \<open>Desired hosts\<close>

lemma nonEmptyHosts_filter: "nonEmptyHosts hs = filter (\<lambda>h. h \<noteq> []) hs"
  by (induction hs) simp_all

lemma parse_override_example:
  "parseCommaSeparated ''a.local, b.local ,'' = [''a.local'', ''b.local'']"
  by code_simp

text \<open>
  Claim C5.  With the hosts override \<^verbatim>\<open>"a.local, b.local ,"\<close> the desired hosts are
  \<^verbatim>\<open>["a.local", "b.local"]\<close>, whatever the spec declares; with no override and declared
  hosts \<^verbatim>\<open>["x.local", "", "y.local"]\<close> they are \<^verbatim>\<open>["x.local", "y.local"]\<close>; with
  the override present and empty they are the declared hosts (the empty ones skipped).
\<close>

theorem extractHosts_examples:
  "extractHosts (ann(AnnotationHosts := Some ''a.local, b.local ,'')) declared
     = [''a.local'', ''b.local'']
   \<and> extractHosts (ann(AnnotationHosts := None)) [''x.local'', '''', ''y.local'']
     = [''x.local'', ''y.local'']
   \<and> extractHosts (ann(AnnotationHosts := Some '''')) declared
     = filter (\<lambda>h. h \<noteq> []) declared"
  by (simp add: extractHosts_def parse_override_example nonEmptyHosts_filter)

section \<open>Target address\<close>

lemmas ip_eval_simps =
  isValidIPv4_def ParseIP_def parseIPv6_def parseIPv6Loop.simps parseIPv4Fields_def
  To4_def isDigit_def isHexDigit_def hexDigitVal_def digitVal_def byte_def nth_append

lemma isValidIPv4_dotted_example: "isValidIPv4 ''10.0.0.1''"
  by (simp add: ip_eval_simps)

lemma isValidIPv4_loopback6_example: "\<not> isValidIPv4 ''::1''"
  by (simp add: ip_eval_simps)

lemma isValidIPv4_mapped_example: "isValidIPv4 ''::ffff:10.0.0.1''"
  by (simp add: ip_eval_simps)

lemma resolveTargetIP_default:
  "resolveTargetIP (ann(AnnotationTargetIP := None)) d = d"
  "resolveTargetIP (ann(AnnotationTargetIP := Some [])) d = d"
  by (simp_all add: resolveTargetIP_def)

lemma resolveTargetIP_override:
  "s \<noteq> [] \<Longrightarrow> resolveTargetIP (ann(AnnotationTargetIP := Some s)) d
     = (if isValidIPv4 s then s else [])"
  by (simp add: resolveTargetIP_def)

text \<open>
  Claim C4 (the code departs from it).  The IPv4-mapped IPv6 literal
  \<^verbatim>\<open>"::ffff:10.0.0.1"\<close> is a valid IPv6 literal and is not dotted decimal, yet
  \<^verbatim>\<open>net.ParseIP\<close> parses it to an address for which \<^verbatim>\<open>To4\<close> is not
  \<^verbatim>\<open>nil\<close>: \<^verbatim>\<open>resolveTargetIP\<close> returns the literal itself as the target address
  instead of signalling failure with the empty string.
\<close>

theorem resolveTargetIP_accepts_mapped_ipv6:
  "resolveTargetIP (ann(AnnotationTargetIP := Some ''::ffff:10.0.0.1'')) defaultTargetIP
     = ''::ffff:10.0.0.1''"
  by (simp add: resolveTargetIP_def isValidIPv4_mapped_example)

section \<open>Evaluation of the examples\<close>

lemmas string_eval_simps =
  Fields.simps trimLeft.simps trimRight.simps TrimSpace_def spaceWidth_def spaceWidthEnd_def
  isAsciiSpace_def spaceRunes2_def spaceRunes3_def

lemma Fields_example: "Fields ''10.0.0.1 app.local'' = [''10.0.0.1'', ''app.local'']"
  by (simp add: string_eval_simps)

lemmas client_eval_simps =
  ensureAuthenticated_def sessionValid_def authenticate_def httpDo_def
  sessionLifetime_def wrap64_def truncDiv_def NewClient_def


lemmas engine_eval_simps =
  IngressReconcile_def RouteReconcile_def reconcileRoute_def syncObject_def
  handleRouteDeletion_def handleDeletion_def updateManagedHosts_def
  callList_def callCreate_def callDelete_def callGet_def callUpdate_def
  ContainsFinalizer_def AddFinalizer_def RemoveFinalizer_def
  hasRegistrationAnnotation_def extractHosts_def getManagedHosts_def resolveTargetIP_def
  AnnotationRegister_def AnnotationTargetIP_def AnnotationHosts_def AnnotationManagedHosts_def
  FinalizerName_def handleAPIError_def IsRetryable_def

lemma parse_synced: "parseCommaSeparated ''app.local,api.local'' = [''app.local'', ''api.local'']"
  by code_simp

lemma parse_comma_host: "parseCommaSeparated ''a,b'' = [''a'', ''b'']"
  by code_simp



lemma parse_old: "parseCommaSeparated ''old.local'' = [''old.local'']"
  by code_simp



lemma IngressReconcile_rejected:
  "IngressReconcile (rejectingEnv code) ''192.168.1.100'' (registeredIngress, [])
     = (handleAPIError (APIError code (BodyText (OtherJSON []))),
        (registeredIngress,
         [Got (Inr registeredIngress), Listed (Inr []),
          Created \<lparr>IP = ''192.168.1.100'', Domain = ''app.local''\<rparr>
            (Some (APIError code (BodyText (OtherJSON []))))]))"
  by (simp add: engine_eval_simps rejectingEnv_def registeredIngress_def)


lemma cleanup_run:
  "handleDeletion memoryEnv deletingIngress
       (\<lparr>memRecords = syncedRecords, memObject = deletingIngress\<rparr>, [])
     = ((\<lparr>RequeueAfter = 0\<rparr>, None),
        (\<lparr>memRecords = [], memObject = RemoveFinalizer deletingIngress FinalizerName\<rparr>,
         [Deleted ''app.local'' None, Deleted ''api.local'' None,
          Updated (RemoveFinalizer deletingIngress FinalizerName) None]))"
  by (simp add: engine_eval_simps memoryEnv_def deletingIngress_def syncedIngress_def
      twoHostIngress_def syncedRecords_def parse_synced)

lemma failed_cleanup_run:
  "handleDeletion (rejectingEnv 500) deletingIngress (deletingIngress, [])
     = ((\<lparr>RequeueAfter = 30000000000\<rparr>, Some (APIError 500 (BodyText (OtherJSON [])))),
        (deletingIngress,
         [Deleted ''app.local'' (Some (APIError 500 (BodyText (OtherJSON []))))]))"
  by (simp add: engine_eval_simps rejectingEnv_def deletingIngress_def syncedIngress_def
      twoHostIngress_def parse_synced second_def)

lemma DeleteRecord_listRejectingServer:
  "DeleteRecord (Suc 0) listRejectingServer ''app.local'' (NewClient ''secret'')
       \<lparr>store = (), sent = []\<rparr>
     = Some (Some (Wrapped ''listing records to find entry''
                     (APIError 400 (BodyText (OtherJSON [])))),
             freshSession,
             \<lparr>store = (), sent = [AuthRequest ''secret'', ListRequest ''sid-1'']\<rparr>)"
proof -
  let ?w1 = "\<lparr>store = (), sent = [AuthRequest ''secret'']\<rparr>"
  have h1: "ensureAuthenticated listRejectingServer (NewClient ''secret'')
              \<lparr>store = (), sent = []\<rparr> = (None, freshSession, ?w1)"
    by (simp add: client_eval_simps listRejectingServer_def freshSession_def)
  have h2: "ListRecords (Suc 0) listRejectingServer freshSession ?w1
              = Some (Inl (APIError 400 (BodyText (OtherJSON []))), freshSession,
                      \<lparr>store = (), sent = [AuthRequest ''secret'', ListRequest ''sid-1'']\<rparr>)"
    by (simp add: client_eval_simps listRejectingServer_def freshSession_def)
  show ?thesis
    by (subst DeleteRecord.simps, subst h1) (simp add: h2 del: ListRecords.simps)
qed

section \<open>Re-authentication after an unauthorized response\<close>

lemma authenticate_unauthorizedServer:
  "authenticate unauthorizedServer c w =
     (None, c\<lparr>sid := ''sid-1'', csrf := ''csrf-1'', valid := sessionLifetime 300\<rparr>,
      \<lparr>store = store w, sent = sent w @ [AuthRequest (password c)]\<rparr>)"
  by (simp add: authenticate_def httpDo_def unauthorizedServer_def)

lemma ensureAuthenticated_unauthorizedServer:
  "\<exists>c1 w1. ensureAuthenticated unauthorizedServer c w = (None, c1, w1)"
  by (simp add: ensureAuthenticated_def authenticate_unauthorizedServer)

lemma ListRecords_unauthorizedServer: "ListRecords n unauthorizedServer c w = None"
proof (induction n arbitrary: c w)
  case 0
  show ?case by simp
next
  case (Suc n)
  obtain c1 w1 where e: "ensureAuthenticated unauthorizedServer c w = (None, c1, w1)"
    using ensureAuthenticated_unauthorizedServer by blast
  have d: "httpDo unauthorizedServer (ListRequest (sid c1)) w1
        = (Reply 401 (OtherJSON []), \<lparr>store = store w1, sent = sent w1 @ [ListRequest (sid c1)]\<rparr>)"
    by (simp add: httpDo_def unauthorizedServer_def)
  show ?case
    by (simp add: e d authenticate_unauthorizedServer Suc.IH)
qed

lemma CreateRecord_unauthorizedServer: "CreateRecord n unauthorizedServer r c w = None"
proof (induction n arbitrary: c w)
  case 0
  show ?case by simp
next
  case (Suc n)
  obtain c1 w1 where e: "ensureAuthenticated unauthorizedServer c w = (None, c1, w1)"
    using ensureAuthenticated_unauthorizedServer by blast
  have d: "\<And>e. httpDo unauthorizedServer (PutRequest (sid c1) e) w1
        = (Reply 401 (OtherJSON []),
           \<lparr>store = store w1, sent = sent w1 @ [PutRequest (sid c1) e]\<rparr>)"
    by (simp add: httpDo_def unauthorizedServer_def)
  show ?case
    by (simp add: e d authenticate_unauthorizedServer Suc.IH)
qed

lemma DeleteRecord_unauthorizedServer: "DeleteRecord n unauthorizedServer d c w = None"
proof (cases n)
  case 0
  then show ?thesis by simp
next
  case (Suc m)
  obtain c1 w1 where e: "ensureAuthenticated unauthorizedServer c w = (None, c1, w1)"
    using ensureAuthenticated_unauthorizedServer by blast
  show ?thesis
    unfolding Suc by (simp add: e ListRecords_unauthorizedServer del: ListRecords.simps)
qed

lemma ListRecords_flakyServer:
  "ListRecords 3 flakyServer sessionClient \<lparr>store = 2, sent = []\<rparr>
     = Some (Inr [\<lparr>IP = ''10.0.0.1'', Domain = ''app.local''\<rparr>],
             sessionClient\<lparr>sid := ''sid-1'', csrf := ''csrf-1'', valid := 240000000000\<rparr>,
             \<lparr>store = 0,
              sent = [ListRequest ''sid-0'', AuthRequest ''secret'', ListRequest ''sid-1'',
                      AuthRequest ''secret'', ListRequest ''sid-1'']\<rparr>)"
  by (simp add: eval_nat_numeral ensureAuthenticated_def sessionValid_def authenticate_def httpDo_def flakyServer_def
     sessionClient_def sessionLifetime_def wrap64_def truncDiv_def Fields_example)

text \<open>
  Claim C1 (the code departs from it).  After a 401 and a successful re-authentication the
  three operations call themselves, so a second 401 is answered by another
  re-authentication and another attempt, not by an error: against a store that answers
  every authentication with a session and everything else with 401, no bound on the depth
  of these calls lets \<^verbatim>\<open>ListRecords\<close>, \<^verbatim>\<open>CreateRecord\<close> or
  \<^verbatim>\<open>DeleteRecord\<close> return.
\<close>

theorem unauthorized_retries_never_end:
  "ListRecords n unauthorizedServer c w = None
   \<and> CreateRecord n unauthorizedServer r c w = None
   \<and> DeleteRecord n unauthorizedServer d c w = None"
  by (simp add: ListRecords_unauthorizedServer CreateRecord_unauthorizedServer
      DeleteRecord_unauthorizedServer)

section \<open>Deleting by domain\<close>

lemma authenticate_sent:
  "authenticate sv c w = (r, c', w') \<Longrightarrow> sent w' = sent w @ [AuthRequest (password c)]"
  by (auto simp: authenticate_def httpDo_def split: prod.splits reply.splits if_splits option.splits)

lemma ensureAuthenticated_sent:
  "ensureAuthenticated sv c w = (r, c', w') \<Longrightarrow>
     sent w' = sent w @ (if sessionValid sv c w then [] else [AuthRequest (password c)])"
  by (auto simp: ensureAuthenticated_def dest: authenticate_sent)

lemma authenticate_mutations:
  "authenticate sv c w = (r, c', w') \<Longrightarrow> filter isMutation (sent w') = filter isMutation (sent w)"
  by (drule authenticate_sent) simp

lemma ensureAuthenticated_mutations:
  "ensureAuthenticated sv c w = (r, c', w') \<Longrightarrow>
     filter isMutation (sent w') = filter isMutation (sent w)"
  by (drule ensureAuthenticated_sent) simp

lemma httpDo_sent: "httpDo sv rq w = (rp, w') \<Longrightarrow> sent w' = sent w @ [rq]"
  by (auto simp: httpDo_def split: prod.splits)

lemma ListRecords_mutations:
  "ListRecords n sv c w = Some (r, c', w') \<Longrightarrow>
     filter isMutation (sent w') = filter isMutation (sent w)"
proof (induction n arbitrary: c w)
  case 0
  then show ?case by simp
next
  case (Suc n)
  obtain r1 c1 w1 where e: "ensureAuthenticated sv c w = (r1, c1, w1)"
    by (cases "ensureAuthenticated sv c w") auto
  note m1 = ensureAuthenticated_mutations [OF e]
  show ?case
  proof (cases r1)
    case (Some err)
    with Suc.prems e m1 show ?thesis by simp
  next
    case None
    obtain rp w2 where d: "httpDo sv (ListRequest (sid c1)) w1 = (rp, w2)"
      by (cases "httpDo sv (ListRequest (sid c1)) w1") auto
    have m2: "filter isMutation (sent w2) = filter isMutation (sent w)"
      using httpDo_sent [OF d] m1 by simp
    show ?thesis
    proof (cases rp)
      case NoReply
      with Suc.prems e None d m2 show ?thesis by simp
    next
      case (Reply code b)
      show ?thesis
      proof (cases "code = 401")
        case True
        obtain r3 c3 w3 where a: "authenticate sv c1 w2 = (r3, c3, w3)"
          by (cases "authenticate sv c1 w2") auto
        note m3 = authenticate_mutations [OF a]
        show ?thesis
        proof (cases r3)
          case (Some err)
          with Suc.prems e None d Reply True a m2 m3 show ?thesis by simp
        next
          case n3: None
          with Suc.prems e None d Reply True a have "ListRecords n sv c3 w3 = Some (r, c', w')"
            by simp
          from Suc.IH [OF this] m2 m3 show ?thesis by simp
        qed
      next
        case False
        with Suc.prems e None d Reply m2 show ?thesis
          by (auto split: if_splits option.splits)
      qed
    qed
  qed
qed

lemma entryToDelete_none: "domain \<notin> Domain ` set records \<Longrightarrow> entryToDelete domain records = []"
  by (induction records) auto


text \<open>
  Claim C7.  When the listing that \<^verbatim>\<open>DeleteRecord\<close> starts with succeeds and holds no
  record of the domain, \<^verbatim>\<open>DeleteRecord\<close> returns success in the state the listing
  left, and no \<^verbatim>\<open>PUT\<close> or \<^verbatim>\<open>DELETE\<close> request was sent.
\<close>

theorem DeleteRecord_missing_is_noop:
  assumes "ensureAuthenticated sv c w = (None, c1, w1)"
    and "ListRecords (Suc n) sv c1 w1 = Some (Inr records, c2, w2)"
    and "domain \<notin> Domain ` set records"
  shows "DeleteRecord (Suc n) sv domain c w = Some (None, c2, w2)
       \<and> filter isMutation (sent w2) = filter isMutation (sent w)"
proof -
  have "entryToDelete domain records = []" using assms(3) by (rule entryToDelete_none)
  then have "DeleteRecord (Suc n) sv domain c w = Some (None, c2, w2)"
    using assms(1,2) by (simp del: ListRecords.simps)
  moreover have "filter isMutation (sent w2) = filter isMutation (sent w)"
    using ensureAuthenticated_mutations [OF assms(1)] ListRecords_mutations [OF assms(2)] by simp
  ultimately show ?thesis by simp
qed

theorem DeleteRecord_missing_witness:
  "DeleteRecord (Suc 0) storeServer ''missing.local'' (NewClient ''secret'')
      \<lparr>store = [''10.0.0.1 app.local''], sent = []\<rparr>
     = Some (None, freshSession,
         \<lparr>store = [''10.0.0.1 app.local''],
          sent = [AuthRequest ''secret'', ListRequest ''sid-1'']\<rparr>)
   \<and> filter isMutation [AuthRequest ''secret'', ListRequest ''sid-1''] = []"
proof -
  let ?w1 = "\<lparr>store = [''10.0.0.1 app.local''], sent = [AuthRequest ''secret'']\<rparr>"
  let ?w2 = "\<lparr>store = [''10.0.0.1 app.local''],
              sent = [AuthRequest ''secret'', ListRequest ''sid-1'']\<rparr>"
  have h1: "ensureAuthenticated storeServer (NewClient ''secret'')
              \<lparr>store = [''10.0.0.1 app.local''], sent = []\<rparr> = (None, freshSession, ?w1)"
    by (simp add: client_eval_simps storeServer_def freshSession_def)
  have h2: "ListRecords (Suc 0) storeServer freshSession ?w1
              = Some (Inr [\<lparr>IP = ''10.0.0.1'', Domain = ''app.local''\<rparr>], freshSession, ?w2)"
    by (simp add: client_eval_simps storeServer_def freshSession_def Fields_example)
  have h3: "''missing.local'' \<notin> Domain ` set [\<lparr>IP = ''10.0.0.1'', Domain = ''app.local''\<rparr>]"
    by simp
  from DeleteRecord_missing_is_noop [OF h1 h2 h3] show ?thesis by simp
qed



section \<open>Session validity\<close>

lemma wrap64_id: "- (2 ^ 63) \<le> x \<Longrightarrow> x < 2 ^ 63 \<Longrightarrow> wrap64 x = x"
  by (simp add: wrap64_def)

lemma sessionLifetime_in_range:
  assumes "0 \<le> v" and "v \<le> 11529215046"
  shows "sessionLifetime v = (v * 80 div 100) * 1000000000"
proof -
  define x where "x = v * 80 div 100"
  have a: "wrap64 (v * 80) = v * 80"
    using assms by (intro wrap64_id) simp_all
  have b: "truncDiv (v * 80) 100 = x"
    using assms by (simp add: truncDiv_def x_def)
  have c: "0 \<le> x" using assms by (simp add: x_def)
  have d: "x \<le> 9223372036" using assms by (simp add: x_def)
  have e: "wrap64 (x * 1000000000) = x * 1000000000"
    using c d by (intro wrap64_id) simp_all
  have "sessionLifetime v = x * 1000000000" by (simp only: sessionLifetime_def a b e)
  then show ?thesis by (simp only: x_def)
qed

lemma extends_refl: "extends w w"
  by (simp add: extends_def)

lemma extends_trans: "extends w w1 \<Longrightarrow> extends w1 w2 \<Longrightarrow> extends w w2"
  by (auto simp: extends_def)

lemma httpDo_extends: "httpDo sv rq w = (rp, w') \<Longrightarrow> extends w w'"
  by (auto simp: extends_def dest: httpDo_sent)

lemma authenticate_extends: "authenticate sv c w = (r, c', w') \<Longrightarrow> extends w w'"
  by (auto simp: extends_def dest: authenticate_sent)

lemma ensureAuthenticated_extends: "ensureAuthenticated sv c w = (r, c', w') \<Longrightarrow> extends w w'"
  by (auto simp: extends_def dest: ensureAuthenticated_sent)

lemma ListRecords_extends: "ListRecords n sv c w = Some (r, c', w') \<Longrightarrow> extends w w'"
proof (induction n arbitrary: c w)
  case 0
  then show ?case by simp
next
  case (Suc n)
  then show ?case
    by (auto split: prod.splits option.splits reply.splits if_splits
        dest!: ensureAuthenticated_extends httpDo_extends authenticate_extends)
       (blast intro: extends_trans)+
qed

lemma CreateRecord_extends: "CreateRecord n sv rec c w = Some (r, c', w') \<Longrightarrow> extends w w'"
proof (induction n arbitrary: c w)
  case 0
  then show ?case by simp
next
  case (Suc n)
  then show ?case
    by (auto split: prod.splits option.splits reply.splits if_splits
        dest!: ensureAuthenticated_extends httpDo_extends authenticate_extends)
       (blast intro: extends_trans)+
qed

lemma DeleteRecord_extends: "DeleteRecord n sv domain c w = Some (r, c', w') \<Longrightarrow> extends w w'"
proof (induction n arbitrary: c w)
  case 0
  then show ?case by simp
next
  case (Suc n)
  then show ?case
    by (auto simp del: ListRecords.simps
        split: prod.splits option.splits reply.splits if_splits sum.splits
        dest!: ensureAuthenticated_extends httpDo_extends authenticate_extends ListRecords_extends)
       (blast intro: extends_trans)+
qed

lemma Healthy_extends: "Healthy n sv c w = Some (r, c', w') \<Longrightarrow> extends w w'"
  by (auto simp: Healthy_def split: prod.splits option.splits sum.splits
      dest!: ensureAuthenticated_extends ListRecords_extends intro: extends_trans)

lemma after_authenticate:
  assumes "authenticate sv c w = (r1, c1, w1)" and "extends w1 w'"
  shows "\<exists>rest. sent w' = sent w @ AuthRequest (password c) # rest"
  using assms by (auto simp: extends_def dest!: authenticate_sent)

lemma ListRecords_auth_first:
  assumes "\<not> sessionValid sv c w" and "ListRecords (Suc n) sv c w = Some (r, c', w')"
  shows "\<exists>rest. sent w' = sent w @ AuthRequest (password c) # rest"
proof -
  obtain r1 c1 w1 where a: "authenticate sv c w = (r1, c1, w1)"
    by (cases "authenticate sv c w") auto
  have "extends w1 w'"
    using assms a
    by (auto simp: ensureAuthenticated_def extends_refl
        split: prod.splits option.splits reply.splits if_splits
        dest!: httpDo_extends authenticate_extends ListRecords_extends)
       (blast intro: extends_trans)+
  with a show ?thesis by (rule after_authenticate)
qed

lemma CreateRecord_auth_first:
  assumes "\<not> sessionValid sv c w" and "CreateRecord (Suc n) sv rec c w = Some (r, c', w')"
  shows "\<exists>rest. sent w' = sent w @ AuthRequest (password c) # rest"
proof -
  obtain r1 c1 w1 where a: "authenticate sv c w = (r1, c1, w1)"
    by (cases "authenticate sv c w") auto
  have "extends w1 w'"
    using assms a
    by (auto simp: ensureAuthenticated_def extends_refl
        split: prod.splits option.splits reply.splits if_splits
        dest!: httpDo_extends authenticate_extends CreateRecord_extends)
       (blast intro: extends_trans)+
  with a show ?thesis by (rule after_authenticate)
qed

lemma DeleteRecord_auth_first:
  assumes "\<not> sessionValid sv c w" and "DeleteRecord (Suc n) sv domain c w = Some (r, c', w')"
  shows "\<exists>rest. sent w' = sent w @ AuthRequest (password c) # rest"
proof -
  obtain r1 c1 w1 where a: "authenticate sv c w = (r1, c1, w1)"
    by (cases "authenticate sv c w") auto
  have "extends w1 w'"
    using assms a
    by (auto simp: ensureAuthenticated_def extends_refl simp del: ListRecords.simps
        split: prod.splits option.splits reply.splits if_splits sum.splits
        dest!: httpDo_extends authenticate_extends ListRecords_extends DeleteRecord_extends)
       (blast intro: extends_trans)+
  with a show ?thesis by (rule after_authenticate)
qed

lemma Healthy_auth_first:
  assumes "\<not> sessionValid sv c w" and "Healthy (Suc n) sv c w = Some (r, c', w')"
  shows "\<exists>rest. sent w' = sent w @ AuthRequest (password c) # rest"
proof -
  obtain r1 c1 w1 where a: "authenticate sv c w = (r1, c1, w1)"
    by (cases "authenticate sv c w") auto
  have "extends w1 w'"
    using assms a
    by (auto simp: Healthy_def ensureAuthenticated_def extends_refl simp del: ListRecords.simps
        split: prod.splits option.splits sum.splits
        dest!: ListRecords_extends)
  with a show ?thesis by (rule after_authenticate)
qed

lemma failed_authentication_stops:
  assumes "\<not> sessionValid sv c w" and "authenticate sv c w = (Some err, c1, w1)"
  shows "ListRecords (Suc n) sv c w = Some (Inl (Wrapped ''authentication failed'' err), c1, w1)"
    and "CreateRecord (Suc n) sv rec c w = Some (Some (Wrapped ''authentication failed'' err), c1, w1)"
    and "DeleteRecord (Suc n) sv domain c w
           = Some (Some (Wrapped ''authentication failed'' err), c1, w1)"
    and "Healthy (Suc n) sv c w = Some (False, c1, w1)"
proof -
  have e: "ensureAuthenticated sv c w = (Some err, c1, w1)"
    using assms by (simp add: ensureAuthenticated_def)
  show "ListRecords (Suc n) sv c w = Some (Inl (Wrapped ''authentication failed'' err), c1, w1)"
    by (simp add: e)
  show "CreateRecord (Suc n) sv rec c w = Some (Some (Wrapped ''authentication failed'' err), c1, w1)"
    by (simp add: e)
  show "DeleteRecord (Suc n) sv domain c w
           = Some (Some (Wrapped ''authentication failed'' err), c1, w1)"
    by (simp add: e del: ListRecords.simps)
  show "Healthy (Suc n) sv c w = Some (False, c1, w1)"
    by (simp add: e Healthy_def del: ListRecords.simps)
qed

lemma authenticate_session:
  assumes "0 \<le> v" and "v \<le> 11529215046"
    and "handle sv (AuthRequest (password c)) (store w) = (Reply 200 (SessionJSON s cs v), st')"
  shows "authenticate sv c w =
           (None, c\<lparr>sid := s, csrf := cs, valid := clock sv st' + (v * 80 div 100) * second\<rparr>,
            \<lparr>store = st', sent = sent w @ [AuthRequest (password c)]\<rparr>)"
proof -
  have "decodeAuth (SessionJSON s cs v) = Some (s, cs, v)" using assms(1,2) by simp
  then show ?thesis
    using assms(3) sessionLifetime_in_range [OF assms(1,2)]
    by (simp add: authenticate_def httpDo_def second_def)
qed

text \<open>
  Claim C8, as amended.  \<^verbatim>\<open>ListRecords\<close>, \<^verbatim>\<open>CreateRecord\<close>, \<^verbatim>\<open>DeleteRecord\<close>
  and \<^verbatim>\<open>Healthy\<close> check the session first: when it is not valid (expired, or no session
  id) the first request they send is the authentication, and when that fails they return
  its error without sending anything else; a valid session is used as it is.  After a
  successful authentication that advertises a validity of \<open>v\<close> seconds, with
  \<open>0 \<le> v \<le> 11529215046\<close>, the stored expiry is the time read after the response plus
  \<open>v * 80 div 100\<close> seconds, and the session is valid exactly while the clock is before
  that expiry and the session id is not empty.
\<close>

theorem session_checked_first_and_discounted:
  "(\<not> sessionValid sv c w \<and> ListRecords (Suc n) sv c w = Some (lr, c', w')
      \<longrightarrow> (\<exists>rest. sent w' = sent w @ AuthRequest (password c) # rest))
   \<and> (\<not> sessionValid sv c w \<and> CreateRecord (Suc n) sv rec c w = Some (cr, c', w')
      \<longrightarrow> (\<exists>rest. sent w' = sent w @ AuthRequest (password c) # rest))
   \<and> (\<not> sessionValid sv c w \<and> DeleteRecord (Suc n) sv domain c w = Some (dr, c', w')
      \<longrightarrow> (\<exists>rest. sent w' = sent w @ AuthRequest (password c) # rest))
   \<and> (\<not> sessionValid sv c w \<and> Healthy (Suc n) sv c w = Some (hr, c', w')
      \<longrightarrow> (\<exists>rest. sent w' = sent w @ AuthRequest (password c) # rest))
   \<and> (\<not> sessionValid sv c w \<and> authenticate sv c w = (Some err, c1, w1)
      \<longrightarrow> ListRecords (Suc n) sv c w = Some (Inl (Wrapped ''authentication failed'' err), c1, w1)
        \<and> CreateRecord (Suc n) sv rec c w
              = Some (Some (Wrapped ''authentication failed'' err), c1, w1)
        \<and> DeleteRecord (Suc n) sv domain c w
              = Some (Some (Wrapped ''authentication failed'' err), c1, w1)
        \<and> Healthy (Suc n) sv c w = Some (False, c1, w1))
   \<and> (sessionValid sv c w \<longrightarrow> ensureAuthenticated sv c w = (None, c, w))
   \<and> (0 \<le> v \<and> v \<le> 11529215046
        \<and> handle sv (AuthRequest (password c)) (store w) = (Reply 200 (SessionJSON s cs v), st')
      \<longrightarrow> authenticate sv c w =
            (None, c\<lparr>sid := s, csrf := cs, valid := clock sv st' + (v * 80 div 100) * second\<rparr>,
             \<lparr>store = st', sent = sent w @ [AuthRequest (password c)]\<rparr>)
        \<and> (sessionValid sv
              (c\<lparr>sid := s, csrf := cs, valid := clock sv st' + (v * 80 div 100) * second\<rparr>) w2
             = (clock sv (store w2) < clock sv st' + (v * 80 div 100) * second \<and> s \<noteq> [])))"
proof -
  have 1: "\<not> sessionValid sv c w \<and> ListRecords (Suc n) sv c w = Some (lr, c', w')
      \<longrightarrow> (\<exists>rest. sent w' = sent w @ AuthRequest (password c) # rest)"
    using ListRecords_auth_first by blast
  have 2: "\<not> sessionValid sv c w \<and> CreateRecord (Suc n) sv rec c w = Some (cr, c', w')
      \<longrightarrow> (\<exists>rest. sent w' = sent w @ AuthRequest (password c) # rest)"
    using CreateRecord_auth_first by blast
  have 3: "\<not> sessionValid sv c w \<and> DeleteRecord (Suc n) sv domain c w = Some (dr, c', w')
      \<longrightarrow> (\<exists>rest. sent w' = sent w @ AuthRequest (password c) # rest)"
    using DeleteRecord_auth_first by blast
  have 4: "\<not> sessionValid sv c w \<and> Healthy (Suc n) sv c w = Some (hr, c', w')
      \<longrightarrow> (\<exists>rest. sent w' = sent w @ AuthRequest (password c) # rest)"
    using Healthy_auth_first by blast
  have 5: "\<not> sessionValid sv c w \<and> authenticate sv c w = (Some err, c1, w1)
      \<longrightarrow> ListRecords (Suc n) sv c w = Some (Inl (Wrapped ''authentication failed'' err), c1, w1)
        \<and> CreateRecord (Suc n) sv rec c w
              = Some (Some (Wrapped ''authentication failed'' err), c1, w1)
        \<and> DeleteRecord (Suc n) sv domain c w
              = Some (Some (Wrapped ''authentication failed'' err), c1, w1)
        \<and> Healthy (Suc n) sv c w = Some (False, c1, w1)"
    by (auto simp del: ListRecords.simps CreateRecord.simps DeleteRecord.simps
        intro: failed_authentication_stops)
  have 6: "sessionValid sv c w \<longrightarrow> ensureAuthenticated sv c w = (None, c, w)"
    by (simp add: ensureAuthenticated_def)
  have 7: "0 \<le> v \<and> v \<le> 11529215046
        \<and> handle sv (AuthRequest (password c)) (store w) = (Reply 200 (SessionJSON s cs v), st')
      \<longrightarrow> authenticate sv c w =
            (None, c\<lparr>sid := s, csrf := cs, valid := clock sv st' + (v * 80 div 100) * second\<rparr>,
             \<lparr>store = st', sent = sent w @ [AuthRequest (password c)]\<rparr>)
        \<and> (sessionValid sv
              (c\<lparr>sid := s, csrf := cs, valid := clock sv st' + (v * 80 div 100) * second\<rparr>) w2
             = (clock sv (store w2) < clock sv st' + (v * 80 div 100) * second \<and> s \<noteq> []))"
    using authenticate_session by (auto simp: sessionValid_def)
  from 1 2 3 4 5 6 7 show ?thesis by blast
qed

text \<open>
  Without the bound the claim fails: \<^verbatim>\<open>time.Duration(Validity*80/100) * time.Second\<close>
  is 64-bit arithmetic on nanoseconds.  A validity of 20000000000 seconds gives a negative
  lifetime, so the stored expiry is not the authentication time plus 16000000000 seconds
  and the new session is expired at once.
\<close>

theorem long_session_wraps_around:
  "authenticate longSessionServer (NewClient ''secret'') \<lparr>store = (), sent = []\<rparr>
     = (None,
        \<lparr>password = ''secret'', sid = ''sid-1'', csrf = ''csrf-1'',
           valid = - 2446744073709550616\<rparr>,
        \<lparr>store = (), sent = [AuthRequest ''secret'']\<rparr>)
   \<and> (- 2446744073709550616 :: int) \<noteq> 1000 + (20000000000 * 80 div 100) * second
   \<and> \<not> sessionValid longSessionServer
         \<lparr>password = ''secret'', sid = ''sid-1'', csrf = ''csrf-1'',
            valid = - 2446744073709550616\<rparr>
         \<lparr>store = (), sent = [AuthRequest ''secret'']\<rparr>"
  by (simp add: client_eval_simps longSessionServer_def second_def)

theorem session_checked_witness:
  "(\<exists>rest. [AuthRequest ''secret'', ListRequest ''sid-1'']
        = [] @ AuthRequest (password (NewClient ''secret'')) # rest)
   \<and> authenticate storeServer (NewClient ''secret'') \<lparr>store = [], sent = []\<rparr>
       = (None, freshSession, \<lparr>store = [], sent = [AuthRequest ''secret'']\<rparr>)
   \<and> sessionValid storeServer freshSession \<lparr>store = [], sent = [AuthRequest ''secret'']\<rparr>"
proof -
  let ?c = "NewClient ''secret''"
  let ?w = "\<lparr>store = ([] :: string list), sent = []\<rparr>"
  let ?w1 = "\<lparr>store = ([] :: string list), sent = [AuthRequest ''secret'']\<rparr>"
  let ?w' = "\<lparr>store = ([] :: string list), sent = [AuthRequest ''secret'', ListRequest ''sid-1'']\<rparr>"
  have h0: "\<not> sessionValid storeServer ?c ?w"
    by (simp add: sessionValid_def NewClient_def)
  have h1: "ListRecords (Suc 0) storeServer ?c ?w = Some (Inr [], freshSession, ?w')"
    by (simp add: client_eval_simps storeServer_def freshSession_def)
  have h2: "(0::int) \<le> 300 \<and> (300::int) \<le> 11529215046
      \<and> handle storeServer (AuthRequest (password ?c)) (store ?w)
          = (Reply 200 (SessionJSON ''sid-1'' ''csrf-1'' 300), [])"
    by (simp add: storeServer_def NewClient_def)
  note t = session_checked_first_and_discounted
    [of storeServer ?c ?w 0 "Inr []" freshSession ?w' _ _ _ _ _ _ _ _ 300 "''sid-1''" "''csrf-1''" "[]" ?w1]
  from t h0 h1 have a: "\<exists>rest. sent ?w' = sent ?w @ AuthRequest (password ?c) # rest"
    by blast
  from t h2 have b: "authenticate storeServer ?c ?w =
            (None, ?c\<lparr>sid := ''sid-1'', csrf := ''csrf-1'',
                   valid := clock storeServer [] + (300 * 80 div 100) * second\<rparr>,
             \<lparr>store = [], sent = sent ?w @ [AuthRequest (password ?c)]\<rparr>)"
    by blast
  from t h2 have c: "sessionValid storeServer
              (?c\<lparr>sid := ''sid-1'', csrf := ''csrf-1'',
                  valid := clock storeServer [] + (300 * 80 div 100) * second\<rparr>) ?w1
             = (clock storeServer (store ?w1) < clock storeServer [] + (300 * 80 div 100) * second
                \<and> ''sid-1'' \<noteq> [])"
    by blast
  from a b c show ?thesis
    by (simp add: NewClient_def freshSession_def storeServer_def second_def)
qed

section \<open>Traces of a reconcile\<close>

lemma callList_trace:
  "callList env st = (r, st') \<Longrightarrow> snd st' = snd st @ [Listed r]"
  by (auto simp: callList_def split: prod.splits)

lemma callCreate_trace:
  "callCreate env rec st = (r, st') \<Longrightarrow> snd st' = snd st @ [Created rec r]"
  by (auto simp: callCreate_def split: prod.splits)

lemma callDelete_trace:
  "callDelete env host st = (r, st') \<Longrightarrow> snd st' = snd st @ [Deleted host r]"
  by (auto simp: callDelete_def split: prod.splits)

lemma callGet_trace:
  "callGet env st = (r, st') \<Longrightarrow> snd st' = snd st @ [Got r]"
  by (auto simp: callGet_def split: prod.splits)

lemma callUpdate_trace:
  "callUpdate env ob st = (r, st') \<Longrightarrow> snd st' = snd st @ [Updated ob r]"
  by (auto simp: callUpdate_def split: prod.splits)

lemma storeEventsWithin_append:
  "storeEventsWithin S (a @ b) = (storeEventsWithin S a \<and> storeEventsWithin S b)"
  by (induction S a rule: storeEventsWithin.induct) auto

lemma storeEventsWithin_mono:
  "storeEventsWithin S a \<Longrightarrow> S \<subseteq> T \<Longrightarrow> storeEventsWithin T a"
  by (induction S a rule: storeEventsWithin.induct) auto

lemma syncDesired_within:
  "syncDesired env current targetIP hosts st = (r, st') \<Longrightarrow>
     \<exists>new. snd st' = snd st @ new \<and> storeEventsWithin (set hosts) new"
proof (induction hosts arbitrary: st)
  case Nil
  then show ?case by simp
next
  case (Cons host hosts)
  have mono: "\<And>new. storeEventsWithin (set hosts) new
      \<Longrightarrow> storeEventsWithin (insert host (set hosts)) new"
    by (rule storeEventsWithin_mono) auto
  from Cons.prems show ?case
    by (auto split: option.splits if_splits prod.splits simp: storeEventsWithin_append
        dest!: callDelete_trace callCreate_trace Cons.IH intro: mono)
qed

lemma pruneStale_within:
  "pruneStale env desiredHosts hosts st = (r, st') \<Longrightarrow>
     \<exists>new. snd st' = snd st @ new \<and> storeEventsWithin (set hosts) new"
proof (induction hosts arbitrary: st)
  case Nil
  then show ?case by simp
next
  case (Cons host hosts)
  have mono: "\<And>new. storeEventsWithin (set hosts) new
      \<Longrightarrow> storeEventsWithin (insert host (set hosts)) new"
    by (rule storeEventsWithin_mono) auto
  from Cons.prems show ?case
    by (auto split: option.splits if_splits prod.splits simp: storeEventsWithin_append
        dest!: callDelete_trace Cons.IH intro: mono)
qed

lemma deleteAll_within:
  "deleteAll env hosts st = (r, st') \<Longrightarrow>
     \<exists>new. snd st' = snd st @ new \<and> storeEventsWithin (set hosts) new"
proof (induction hosts arbitrary: st)
  case Nil
  then show ?case by simp
next
  case (Cons host hosts)
  have mono: "\<And>new. storeEventsWithin (set hosts) new
      \<Longrightarrow> storeEventsWithin (insert host (set hosts)) new"
    by (rule storeEventsWithin_mono) auto
  from Cons.prems show ?case
    by (auto split: option.splits if_splits prod.splits simp: storeEventsWithin_append
        dest!: callDelete_trace Cons.IH intro: mono)
qed

lemma justifiedBy_mono: "justifiedBy seen h \<Longrightarrow> set seen \<subseteq> set seen' \<Longrightarrow> justifiedBy seen' h"
  by (auto simp: justifiedBy_def)

lemma within_justified:
  "storeEventsWithin S new \<Longrightarrow> (\<And>h. h \<in> S \<Longrightarrow> justifiedBy seen h) \<Longrightarrow>
     deletesJustified seen new"
  by (induction S new rule: storeEventsWithin.induct) auto

lemma deletesJustified_Got: "deletesJustified seen [Got x]"
  by (cases x) simp_all

lemma deletesJustified_snoc_other:
  "deletesJustified seen new \<Longrightarrow> (\<And>h r. ev \<noteq> Deleted h r) \<Longrightarrow>
     deletesJustified seen (new @ [ev])"
proof (induction seen new rule: deletesJustified.induct)
  case (1 seen)
  then show ?case by (cases ev) (auto simp: deletesJustified_Got)
next
  case (2 seen ob evs)
  then show ?case by simp
next
  case (3 seen h r evs)
  then show ?case by simp
qed simp_all

lemma deletesJustified_append:
  "deletesJustified seen (a @ b)
     = (deletesJustified seen a \<and> deletesJustified (rev (gotObjs a) @ seen) b)"
  by (induction seen a rule: deletesJustified.induct) simp_all

lemma deletesJustified_mono:
  "deletesJustified seen evs \<Longrightarrow> set seen \<subseteq> set seen' \<Longrightarrow> deletesJustified seen' evs"
proof (induction seen evs arbitrary: seen' rule: deletesJustified.induct)
  case (2 seen ob evs)
  from "2.IH" [of "ob # seen'"] "2.prems" show ?case by auto
next
  case (3 seen h r evs)
  then show ?case by (auto intro: justifiedBy_mono)
qed simp_all

lemma within_gotObjs: "storeEventsWithin S new \<Longrightarrow> gotObjs new = []"
  by (induction S new rule: storeEventsWithin.induct) auto

lemma updateManagedHosts_new:
  "updateManagedHosts env hosts st = (r, st') \<Longrightarrow>
     \<exists>new. snd st' = snd st @ new \<and> (\<forall>seen. deletesJustified seen new)"
  by (auto simp: updateManagedHosts_def deletesJustified_Got split: prod.splits sum.splits
      dest!: callGet_trace callUpdate_trace)

lemma syncObject_new:
  assumes "syncObject env d ann hosts st = (out, st')"
  shows "\<exists>new. snd st' = snd st @ new
     \<and> (\<forall>seen. (\<forall>h \<in> set hosts \<union> set (getManagedHosts ann). justifiedBy seen h)
          \<longrightarrow> deletesJustified seen new)"
proof -
  have j: "\<And>seen new. storeEventsWithin (set hosts) new \<Longrightarrow>
      \<forall>h \<in> set hosts \<union> set (getManagedHosts ann). justifiedBy seen h \<Longrightarrow>
      deletesJustified seen new"
    by (rule within_justified) auto
  have k: "\<And>seen new. storeEventsWithin (set (getManagedHosts ann)) new \<Longrightarrow>
      \<forall>h \<in> set hosts \<union> set (getManagedHosts ann). justifiedBy seen h \<Longrightarrow>
      deletesJustified seen new"
    by (rule within_justified) auto
  from assms show ?thesis
    by (auto simp: syncObject_def deletesJustified_append within_gotObjs
        split: if_splits prod.splits sum.splits option.splits
        dest!: callList_trace syncDesired_within pruneStale_within updateManagedHosts_new
        intro: j k)
qed

lemma handleRouteDeletion_new:
  assumes "handleRouteDeletion env ob ann st = (out, st')"
  shows "\<exists>new. snd st' = snd st @ new
     \<and> (\<forall>seen. (\<forall>h \<in> set (getManagedHosts ann). justifiedBy seen h)
          \<longrightarrow> deletesJustified seen new)"
proof -
  have k: "\<And>seen new. storeEventsWithin (set (getManagedHosts ann)) new \<Longrightarrow>
      \<forall>h \<in> set (getManagedHosts ann). justifiedBy seen h \<Longrightarrow>
      deletesJustified seen new"
    by (rule within_justified) auto
  from assms show ?thesis
    by (auto simp: handleRouteDeletion_def deletesJustified_append within_gotObjs
        split: if_splits prod.splits option.splits
        dest!: deleteAll_within callUpdate_trace intro: k)
qed

lemma justifiedBy_self_managed:
  "h \<in> set (getManagedHosts (annotations ob)) \<Longrightarrow> justifiedBy (ob # seen) h"
  by (auto simp: justifiedBy_def)

lemma justifiedBy_self_desired:
  "h \<in> set (extractHosts (annotations ob) (specHosts ob)) \<Longrightarrow> justifiedBy (ob # seen) h"
  by (auto simp: justifiedBy_def)

lemma justifiedBy_Cons: "justifiedBy seen h \<Longrightarrow> justifiedBy (ob # seen) h"
  by (auto simp: justifiedBy_def)

lemma reconcileRoute_new:
  assumes "reconcileRoute env d ob ann hosts st = (out, st')"
  shows "\<exists>new. snd st' = snd st @ new
     \<and> (\<forall>seen. (\<forall>h \<in> set hosts \<union> set (getManagedHosts ann). justifiedBy seen h)
          \<longrightarrow> deletesJustified seen new)"
proof -
  consider (del) "reconcileRoute env d ob ann hosts st = handleRouteDeletion env ob ann st"
    | (none) "st' = st"
    | (sync) "reconcileRoute env d ob ann hosts st = syncObject env d ann hosts st"
    | (updfail) err st1 where "callUpdate env (AddFinalizer ob FinalizerName) st = (Some err, st1)"
        "st' = st1"
    | (getfail) st1 err st2 where "callUpdate env (AddFinalizer ob FinalizerName) st = (None, st1)"
        "callGet env st1 = (Inl err, st2)" "st' = st2"
    | (refetch) st1 ob' st2 where "callUpdate env (AddFinalizer ob FinalizerName) st = (None, st1)"
        "callGet env st1 = (Inr ob', st2)"
        "syncObject env d (annotations ob') hosts st2 = (out, st')"
    using assms
    by (auto simp: reconcileRoute_def split: if_splits prod.splits option.splits sum.splits)
  then show ?thesis
  proof cases
    case del
    with assms handleRouteDeletion_new [of env ob ann st out st'] show ?thesis by auto
  next
    case none
    then show ?thesis by simp
  next
    case sync
    with assms syncObject_new [of env d ann hosts st out st'] show ?thesis by auto
  next
    case updfail
    then show ?thesis by (auto dest!: callUpdate_trace)
  next
    case getfail
    then show ?thesis by (auto dest!: callUpdate_trace callGet_trace)
  next
    case refetch
    from syncObject_new [OF refetch(3)] obtain new2 where
      n2: "snd st' = snd st2 @ new2"
      and j2: "\<And>seen. (\<forall>h \<in> set hosts \<union> set (getManagedHosts (annotations ob')).
                 justifiedBy seen h) \<Longrightarrow> deletesJustified seen new2"
      by blast
    have tr: "snd st' = snd st @ [Updated (AddFinalizer ob FinalizerName) None, Got (Inr ob')] @ new2"
      using callUpdate_trace [OF refetch(1)] callGet_trace [OF refetch(2)] n2 by simp
    have "deletesJustified seen
            ([Updated (AddFinalizer ob FinalizerName) None, Got (Inr ob')] @ new2)"
      if a: "\<forall>h \<in> set hosts \<union> set (getManagedHosts ann). justifiedBy seen h" for seen
    proof -
      have "\<forall>h \<in> set hosts \<union> set (getManagedHosts (annotations ob')). justifiedBy (ob' # seen) h"
        using a by (auto intro: justifiedBy_Cons justifiedBy_self_managed)
      then have "deletesJustified (ob' # seen) new2" by (rule j2)
      then show ?thesis by simp
    qed
    with tr show ?thesis by blast
  qed
qed

lemma RouteReconcile_justified:
  "deletesJustified [] (snd (snd (RouteReconcile env d (e, []))))"
proof -
  obtain g st1 where g: "callGet env (e, []) = (g, st1)"
    by (cases "callGet env (e, [])") auto
  have t1: "snd st1 = [Got g]" using callGet_trace [OF g] by simp
  show ?thesis
  proof (cases g)
    case (Inl err)
    with g t1 show ?thesis by (simp add: RouteReconcile_def)
  next
    case (Inr route)
    obtain out st' where r: "reconcileRoute env d route (annotations route)
        (extractHosts (annotations route) (specHosts route)) st1 = (out, st')"
      by (cases "reconcileRoute env d route (annotations route)
        (extractHosts (annotations route) (specHosts route)) st1") auto
    from reconcileRoute_new [OF r] obtain new where
      n: "snd st' = snd st1 @ new"
      and j: "\<And>seen. (\<forall>h \<in> set (extractHosts (annotations route) (specHosts route))
                 \<union> set (getManagedHosts (annotations route)). justifiedBy seen h)
               \<Longrightarrow> deletesJustified seen new"
      by blast
    have "deletesJustified [route] new"
      by (rule j) (auto intro: justifiedBy_self_managed justifiedBy_self_desired)
    with g Inr r n t1 show ?thesis by (simp add: RouteReconcile_def)
  qed
qed

lemma IngressReconcile_justified:
  "deletesJustified [] (snd (snd (IngressReconcile env d (e, []))))"
proof -
  obtain g st1 where g: "callGet env (e, []) = (g, st1)"
    by (cases "callGet env (e, [])") auto
  have t1: "snd st1 = [Got g]" using callGet_trace [OF g] by simp
  show ?thesis
  proof (cases g)
    case (Inl err)
    with g t1 show ?thesis by (simp add: IngressReconcile_def)
  next
    case (Inr ingress)
    obtain out st' where r: "IngressReconcile env d (e, []) = (out, st')"
      by (cases "IngressReconcile env d (e, [])") auto
    let ?hosts = "extractHosts (annotations ingress) (specHosts ingress)"
    consider (same) "reconcileRoute env d ingress (annotations ingress) ?hosts st1 = (out, st')"
      | (refetch) st2 ingress' st3 where
          "callUpdate env (AddFinalizer ingress FinalizerName) st1 = (None, st2)"
          "callGet env st2 = (Inr ingress', st3)"
          "syncObject env d (annotations ingress')
             (extractHosts (annotations ingress') (specHosts ingress')) st3 = (out, st')"
      using r g Inr
      by (auto simp: IngressReconcile_def reconcileRoute_def handleDeletion_def
          split: if_splits prod.splits option.splits sum.splits)
    then have "deletesJustified [] (snd st')"
    proof cases
      case same
      from reconcileRoute_new [OF same] obtain new where
        n: "snd st' = snd st1 @ new"
        and j: "\<And>seen. (\<forall>h \<in> set ?hosts \<union> set (getManagedHosts (annotations ingress)).
                   justifiedBy seen h) \<Longrightarrow> deletesJustified seen new"
        by blast
      have "deletesJustified [ingress] new"
        by (rule j) (auto intro: justifiedBy_self_managed justifiedBy_self_desired)
      with n t1 Inr show ?thesis by simp
    next
      case refetch
      from syncObject_new [OF refetch(3)] obtain new where
        n: "snd st' = snd st3 @ new"
        and j: "\<And>seen. (\<forall>h \<in> set (extractHosts (annotations ingress') (specHosts ingress'))
                     \<union> set (getManagedHosts (annotations ingress')). justifiedBy seen h)
                 \<Longrightarrow> deletesJustified seen new"
        by blast
      have "deletesJustified [ingress', ingress] new"
        by (rule j) (auto intro: justifiedBy_self_managed justifiedBy_self_desired)
      moreover have "snd st' = [Got (Inr ingress), Updated (AddFinalizer ingress FinalizerName) None,
          Got (Inr ingress')] @ new"
        using callUpdate_trace [OF refetch(1)] callGet_trace [OF refetch(2)] n t1 Inr by simp
      ultimately show ?thesis by simp
    qed
    with r show ?thesis by simp
  qed
qed

text \<open>
  Claim C2.  In a reconcile of a Gateway route or of an Ingress, from the fetch of the
  object on, every \<^verbatim>\<open>DeleteRecord\<close> call (sync phase, prune phase or deletion
  cleanup) is for a host that is in the managed-hosts annotation, or among the desired
  hosts, of the object as this reconcile fetched it before the call (first, or again after
  it added the finalizer).
\<close>

theorem deletions_only_of_managed_or_desired_hosts:
  "deletesJustified [] (snd (snd (RouteReconcile env d (e, []))))
   \<and> deletesJustified [] (snd (snd (IngressReconcile env d (e, []))))"
  by (simp add: RouteReconcile_justified IngressReconcile_justified)

theorem deletions_witness:
  "deletesJustified []
     (snd (snd (RouteReconcile memoryEnv ''192.168.1.100''
        (\<lparr>memRecords = [\<lparr>IP = ''192.168.1.100'', Domain = ''old.local''\<rparr>],
           memObject = staleIngress\<rparr>, []))))
   \<and> deletesJustified []
     (snd (snd (IngressReconcile memoryEnv ''192.168.1.100''
        (\<lparr>memRecords = [\<lparr>IP = ''192.168.1.100'', Domain = ''old.local''\<rparr>],
           memObject = staleIngress\<rparr>, []))))
   \<and> storeMutations
     (snd (snd (IngressReconcile memoryEnv ''192.168.1.100''
        (\<lparr>memRecords = [\<lparr>IP = ''192.168.1.100'', Domain = ''old.local''\<rparr>],
           memObject = staleIngress\<rparr>, []))))
     = [Created \<lparr>IP = ''192.168.1.100'', Domain = ''app.local''\<rparr> None,
        Deleted ''old.local'' None]"
proof -
  have "storeMutations
     (snd (snd (IngressReconcile memoryEnv ''192.168.1.100''
        (\<lparr>memRecords = [\<lparr>IP = ''192.168.1.100'', Domain = ''old.local''\<rparr>],
           memObject = staleIngress\<rparr>, []))))
     = [Created \<lparr>IP = ''192.168.1.100'', Domain = ''app.local''\<rparr> None,
        Deleted ''old.local'' None]"
    by (simp add: engine_eval_simps memoryEnv_def staleIngress_def parse_old fun_upd_twist)
  with deletions_only_of_managed_or_desired_hosts
    [of memoryEnv "''192.168.1.100''"
       "\<lparr>memRecords = [\<lparr>IP = ''192.168.1.100'', Domain = ''old.local''\<rparr>],
          memObject = staleIngress\<rparr>"]
  show ?thesis by simp
qed

section \<open>Deletion cleanup\<close>

lemma deleteAll_result:
  "deleteAll env hosts st = (r, st') \<Longrightarrow>
     (r = None \<and> snd st' = snd st @ map (\<lambda>h. Deleted h None) hosts)
     \<or> (\<exists>pre h post err. hosts = pre @ h # post \<and> r = Some err
          \<and> snd st' = snd st @ map (\<lambda>h. Deleted h None) pre @ [Deleted h (Some err)])"
proof (induction hosts arbitrary: st)
  case Nil
  then show ?case by simp
next
  case (Cons host hosts)
  obtain r1 st1 where d: "callDelete env host st = (r1, st1)"
    by (cases "callDelete env host st") auto
  note t = callDelete_trace [OF d]
  show ?case
  proof (cases r1)
    case (Some err)
    with Cons.prems d t have "r = Some err" "snd st' = snd st @ [Deleted host (Some err)]"
      by auto
    then have "host # hosts = [] @ host # hosts \<and> r = Some err
          \<and> snd st' = snd st @ map (\<lambda>h. Deleted h None) [] @ [Deleted host (Some err)]"
      by simp
    then show ?thesis by blast
  next
    case None
    with Cons.prems d have "deleteAll env hosts st1 = (r, st')" by simp
    from Cons.IH [OF this] show ?thesis
    proof
      assume "r = None \<and> snd st' = snd st1 @ map (\<lambda>h. Deleted h None) hosts"
      with t None show ?thesis by simp
    next
      assume "\<exists>pre h post err. hosts = pre @ h # post \<and> r = Some err
          \<and> snd st' = snd st1 @ map (\<lambda>h. Deleted h None) pre @ [Deleted h (Some err)]"
      then obtain pre h post err where
        "hosts = pre @ h # post" "r = Some err"
        "snd st' = snd st1 @ map (\<lambda>h. Deleted h None) pre @ [Deleted h (Some err)]"
        by blast
      with t None have "host # hosts = (host # pre) @ h # post \<and> r = Some err
          \<and> snd st' = snd st @ map (\<lambda>h. Deleted h None) (host # pre) @ [Deleted h (Some err)]"
        by simp
      then show ?thesis by blast
    qed
  qed
qed

lemma handleRouteDeletion_cleanupTrace:
  assumes "handleRouteDeletion env ob ann (e, []) = (out, (e', tr))"
  shows "cleanupTrace ob ann out tr"
proof (cases "ContainsFinalizer ob FinalizerName")
  case False
  with assms show ?thesis by (simp add: handleRouteDeletion_def cleanupTrace_def)
next
  case True
  obtain r1 st1 where d: "deleteAll env (getManagedHosts ann) (e, []) = (r1, st1)"
    by (cases "deleteAll env (getManagedHosts ann) (e, [])") auto
  from deleteAll_result [OF d] show ?thesis
  proof
    assume a: "r1 = None \<and> snd st1 = snd (e, []) @ map (\<lambda>h. Deleted h None) (getManagedHosts ann)"
    obtain r2 st2 where u: "callUpdate env (RemoveFinalizer ob FinalizerName) st1 = (r2, st2)"
      by (cases "callUpdate env (RemoveFinalizer ob FinalizerName) st1") auto
    from assms True d a u callUpdate_trace [OF u]
    have "tr = map (\<lambda>h. Deleted h None) (getManagedHosts ann)
                    @ [Updated (RemoveFinalizer ob FinalizerName) r2]
              \<and> out = (\<lparr>RequeueAfter = 0\<rparr>, r2)"
      by (cases r2) (auto simp: handleRouteDeletion_def)
    then show ?thesis unfolding cleanupTrace_def by blast
  next
    assume "\<exists>pre h post err. getManagedHosts ann = pre @ h # post \<and> r1 = Some err
          \<and> snd st1 = snd (e, []) @ map (\<lambda>h. Deleted h None) pre @ [Deleted h (Some err)]"
    then obtain pre h post err where
      b: "getManagedHosts ann = pre @ h # post" "r1 = Some err"
         "snd st1 = snd (e, []) @ map (\<lambda>h. Deleted h None) pre @ [Deleted h (Some err)]"
      by blast
    with assms True d have "tr = map (\<lambda>h. Deleted h None) pre @ [Deleted h (Some err)]
              \<and> out = handleAPIError err"
      by (auto simp: handleRouteDeletion_def)
    with b(1) show ?thesis unfolding cleanupTrace_def by blast
  qed
qed

lemma cleanupTrace_update_last:
  assumes "cleanupTrace ob ann out tr" and "Updated u r \<in> set tr"
  shows "tr = map (\<lambda>h. Deleted h None) (getManagedHosts ann)
              @ [Updated (RemoveFinalizer ob FinalizerName) r]"
  using assms by (auto simp: cleanupTrace_def)

lemma cleanupTrace_failed_delete:
  assumes "cleanupTrace ob ann out tr" and "Deleted h (Some err) \<in> set tr"
  shows "out = handleAPIError err \<and> (\<forall>u r. Updated u r \<notin> set tr)"
  using assms by (auto simp: cleanupTrace_def)

text \<open>
  Claim C9.  In a deletion cleanup the only update of the object is the removal of the
  finalizer, and when it is sent the trace before it is one successful deletion for each
  managed host, in order.  When a deletion fails the cleanup returns what
  \<^verbatim>\<open>handleAPIError\<close> makes of the error and the object is not updated at all: the
  finalizer and the managed-hosts annotation stay.
\<close>

theorem finalizer_removed_only_after_all_deletes:
  "(handleRouteDeletion env ob ann (e, []) = (out, (e', tr)) \<and> Updated u r \<in> set tr
      \<longrightarrow> tr = map (\<lambda>h. Deleted h None) (getManagedHosts ann)
               @ [Updated (RemoveFinalizer ob FinalizerName) r])
   \<and> (handleRouteDeletion env ob ann (e, []) = (out, (e', tr)) \<and> Deleted h (Some err) \<in> set tr
      \<longrightarrow> out = handleAPIError err \<and> (\<forall>u r. Updated u r \<notin> set tr))
   \<and> (handleDeletion env ob (e, []) = (out, (e', tr)) \<and> Updated u r \<in> set tr
      \<longrightarrow> tr = map (\<lambda>h. Deleted h None) (getManagedHosts (annotations ob))
               @ [Updated (RemoveFinalizer ob FinalizerName) r])
   \<and> (handleDeletion env ob (e, []) = (out, (e', tr)) \<and> Deleted h (Some err) \<in> set tr
      \<longrightarrow> out = handleAPIError err \<and> (\<forall>u r. Updated u r \<notin> set tr))"
  using handleRouteDeletion_cleanupTrace cleanupTrace_update_last cleanupTrace_failed_delete
  unfolding handleDeletion_def by metis

theorem finalizer_witness:
  "[Deleted ''app.local'' None, Deleted ''api.local'' None,
    Updated (RemoveFinalizer deletingIngress FinalizerName) None]
     = map (\<lambda>h. Deleted h None) (getManagedHosts (annotations deletingIngress))
       @ [Updated (RemoveFinalizer deletingIngress FinalizerName) None]
   \<and> (\<lparr>RequeueAfter = 30000000000\<rparr>, Some (APIError 500 (BodyText (OtherJSON []))))
     = handleAPIError (APIError 500 (BodyText (OtherJSON [])))
   \<and> finalizers (RemoveFinalizer deletingIngress FinalizerName) = []"
proof -
  let ?err = "APIError 500 (BodyText (OtherJSON []))"
  let ?tr = "[Deleted ''app.local'' None, Deleted ''api.local'' None,
    Updated (RemoveFinalizer deletingIngress FinalizerName) None]"
  note t = finalizer_removed_only_after_all_deletes
  have u: "Updated (RemoveFinalizer deletingIngress FinalizerName) None \<in> set ?tr" by simp
  from t [of memoryEnv deletingIngress _ "\<lparr>memRecords = syncedRecords, memObject = deletingIngress\<rparr>"
      "(\<lparr>RequeueAfter = 0\<rparr>, None)"
      "\<lparr>memRecords = [], memObject = RemoveFinalizer deletingIngress FinalizerName\<rparr>" ?tr
      "RemoveFinalizer deletingIngress FinalizerName" None]
    cleanup_run u
  have a: "?tr = map (\<lambda>h. Deleted h None) (getManagedHosts (annotations deletingIngress))
       @ [Updated (RemoveFinalizer deletingIngress FinalizerName) None]"
    by blast
  have d: "Deleted ''app.local'' (Some ?err) \<in> set [Deleted ''app.local'' (Some ?err)]" by simp
  from t [of "rejectingEnv 500" deletingIngress _ deletingIngress
      "(\<lparr>RequeueAfter = 30000000000\<rparr>, Some ?err)" deletingIngress
      "[Deleted ''app.local'' (Some ?err)]" _ _ "''app.local''" ?err]
    failed_cleanup_run d
  have b: "(\<lparr>RequeueAfter = 30000000000\<rparr>, Some ?err) = handleAPIError ?err"
    by blast
  have c: "finalizers (RemoveFinalizer deletingIngress FinalizerName) = []"
    by (simp add: RemoveFinalizer_def deletingIngress_def syncedIngress_def twoHostIngress_def)
  from a b c show ?thesis by simp
qed

section \<open>Store errors and retries\<close>

lemma failures_append: "failures (a @ b) = failures a @ failures b"
  by (induction a rule: failures.induct) simp_all

lemma failedWith_simps [simp]: "failedWith None = []" "failedWith (Some err) = [err]"
  by (simp_all add: failedWith_def)

lemma syncDesired_failures:
  "syncDesired env current targetIP hosts st = (r, st') \<Longrightarrow>
     \<exists>new. snd st' = snd st @ new \<and> failures new = failedWith r"
proof (induction hosts arbitrary: st)
  case Nil
  then show ?case by simp
next
  case (Cons host hosts)
  from Cons.prems show ?case
    by (auto split: option.splits if_splits prod.splits simp: failures_append
        dest!: callDelete_trace callCreate_trace Cons.IH)
qed

lemma pruneStale_failures:
  "pruneStale env desiredHosts hosts st = (r, st') \<Longrightarrow>
     \<exists>new. snd st' = snd st @ new \<and> failures new = failedWith r"
proof (induction hosts arbitrary: st)
  case Nil
  then show ?case by simp
next
  case (Cons host hosts)
  from Cons.prems show ?case
    by (auto split: option.splits if_splits prod.splits simp: failures_append
        dest!: callDelete_trace Cons.IH)
qed

lemma deleteAll_failures:
  "deleteAll env hosts st = (r, st') \<Longrightarrow>
     \<exists>new. snd st' = snd st @ new \<and> failures new = failedWith r"
proof (induction hosts arbitrary: st)
  case Nil
  then show ?case by simp
next
  case (Cons host hosts)
  from Cons.prems show ?case
    by (auto split: option.splits if_splits prod.splits simp: failures_append
        dest!: callDelete_trace Cons.IH)
qed

lemma updateManagedHosts_failures:
  "updateManagedHosts env hosts st = (r, st') \<Longrightarrow>
     \<exists>new. snd st' = snd st @ new \<and> failures new = []"
  by (auto simp: updateManagedHosts_def split: prod.splits sum.splits
      dest!: callGet_trace callUpdate_trace)

lemma settledI_none: "failures new = [] \<Longrightarrow> settled out new"
  by (simp add: settled_def)

lemma syncObject_settled:
  assumes "syncObject env d ann hosts st = (out, st')"
  shows "\<exists>new. snd st' = snd st @ new \<and> settled out new"
  using assms
  by (auto simp: syncObject_def settled_def failures_append
      split: if_splits prod.splits sum.splits option.splits
      dest!: callList_trace syncDesired_failures pruneStale_failures updateManagedHosts_failures)

lemma handleRouteDeletion_settled:
  assumes "handleRouteDeletion env ob ann st = (out, st')"
  shows "\<exists>new. snd st' = snd st @ new \<and> settled out new"
  using assms
  by (auto simp: handleRouteDeletion_def settled_def failures_append
      split: if_splits prod.splits option.splits
      dest!: deleteAll_failures callUpdate_trace)

lemma settled_prefix: "failures pre = [] \<Longrightarrow> settled out new \<Longrightarrow> settled out (pre @ new)"
  by (simp add: settled_def failures_append)

lemma reconcileRoute_settled:
  assumes "reconcileRoute env d ob ann hosts st = (out, st')"
  shows "\<exists>new. snd st' = snd st @ new \<and> settled out new"
proof -
  consider (del) "reconcileRoute env d ob ann hosts st = handleRouteDeletion env ob ann st"
    | (none) "st' = st"
    | (sync) "reconcileRoute env d ob ann hosts st = syncObject env d ann hosts st"
    | (updfail) err st1 where "callUpdate env (AddFinalizer ob FinalizerName) st = (Some err, st1)"
        "st' = st1"
    | (getfail) st1 err st2 where "callUpdate env (AddFinalizer ob FinalizerName) st = (None, st1)"
        "callGet env st1 = (Inl err, st2)" "st' = st2"
    | (refetch) st1 ob' st2 where "callUpdate env (AddFinalizer ob FinalizerName) st = (None, st1)"
        "callGet env st1 = (Inr ob', st2)"
        "syncObject env d (annotations ob') hosts st2 = (out, st')"
    using assms
    by (auto simp: reconcileRoute_def split: if_splits prod.splits option.splits sum.splits)
  then show ?thesis
  proof cases
    case del
    with assms handleRouteDeletion_settled [of env ob ann st out st'] show ?thesis by auto
  next
    case none
    then show ?thesis by (simp add: settled_def)
  next
    case sync
    with assms syncObject_settled [of env d ann hosts st out st'] show ?thesis by auto
  next
    case updfail
    then show ?thesis by (auto simp: settled_def dest!: callUpdate_trace)
  next
    case getfail
    then show ?thesis by (auto simp: settled_def dest!: callUpdate_trace callGet_trace)
  next
    case refetch
    from syncObject_settled [OF refetch(3)] obtain new2 where
      n2: "snd st' = snd st2 @ new2" and s2: "settled out new2"
      by blast
    have tr: "snd st' = snd st @ [Updated (AddFinalizer ob FinalizerName) None, Got (Inr ob')] @ new2"
      using callUpdate_trace [OF refetch(1)] callGet_trace [OF refetch(2)] n2 by simp
    have "settled out ([Updated (AddFinalizer ob FinalizerName) None, Got (Inr ob')] @ new2)"
      using s2 by (intro settled_prefix) simp_all
    with tr show ?thesis by blast
  qed
qed

lemma IngressReconcile_settled:
  assumes "IngressReconcile env d (e, []) = (out, st')"
  shows "settled out (snd st')"
proof -
  obtain g st1 where g: "callGet env (e, []) = (g, st1)"
    by (cases "callGet env (e, [])") auto
  have t1: "snd st1 = [Got g]" using callGet_trace [OF g] by simp
  show ?thesis
  proof (cases g)
    case (Inl err)
    with g t1 assms show ?thesis by (auto simp: IngressReconcile_def settled_def split: if_splits)
  next
    case (Inr ingress)
    let ?hosts = "extractHosts (annotations ingress) (specHosts ingress)"
    consider (same) "reconcileRoute env d ingress (annotations ingress) ?hosts st1 = (out, st')"
      | (refetch) st2 ingress' st3 where
          "callUpdate env (AddFinalizer ingress FinalizerName) st1 = (None, st2)"
          "callGet env st2 = (Inr ingress', st3)"
          "syncObject env d (annotations ingress')
             (extractHosts (annotations ingress') (specHosts ingress')) st3 = (out, st')"
      using assms g Inr
      by (auto simp: IngressReconcile_def reconcileRoute_def handleDeletion_def
          split: if_splits prod.splits option.splits sum.splits)
    then show ?thesis
    proof cases
      case same
      from reconcileRoute_settled [OF same] obtain new where
        "snd st' = snd st1 @ new" "settled out new" by blast
      with t1 show ?thesis using settled_prefix [of "[Got g]" out new] by simp
    next
      case refetch
      from syncObject_settled [OF refetch(3)] obtain new where
        n: "snd st' = snd st3 @ new" and s: "settled out new" by blast
      have "snd st' = [Got g, Updated (AddFinalizer ingress FinalizerName) None,
          Got (Inr ingress')] @ new"
        using callUpdate_trace [OF refetch(1)] callGet_trace [OF refetch(2)] n t1 by simp
      moreover have "settled out ([Got g, Updated (AddFinalizer ingress FinalizerName) None,
          Got (Inr ingress')] @ new)"
        using s by (intro settled_prefix) simp_all
      ultimately show ?thesis by simp
    qed
  qed
qed

lemma settled_failure: "settled out tr \<Longrightarrow> err \<in> set (failures tr) \<Longrightarrow> out = handleAPIError err"
  by (auto simp: settled_def)

lemma handleAPIError_bad_request:
  "handleAPIError (APIError 400 msg) = (\<lparr>RequeueAfter = 0\<rparr>, None)"
  by (simp add: handleAPIError_def IsRetryable_def)

lemma handleAPIError_retry:
  "statusOf err \<noteq> Some 400 \<Longrightarrow> handleAPIError err = (\<lparr>RequeueAfter = 30 * second\<rparr>, Some err)"
  by (cases err) (simp_all add: handleAPIError_def IsRetryable_def)

lemma CreateRecord_status:
  assumes "sessionValid sv c w"
    and "handle sv (PutRequest (sid c) (IP rec @ '' '' @ Domain rec)) (store w) = (Reply code b, s')"
    and "code \<noteq> 401" and "code \<noteq> 200 \<and> code \<noteq> 201 \<and> code \<noteq> 204"
  shows "CreateRecord (Suc n) sv rec c w
           = Some (Some (APIError code (BodyText b)), c,
               \<lparr>store = s', sent = sent w @ [PutRequest (sid c) (IP rec @ '' '' @ Domain rec)]\<rparr>)"
  using assms by (simp add: ensureAuthenticated_def httpDo_def)

lemma CreateRecord_no_reply:
  assumes "sessionValid sv c w"
    and "handle sv (PutRequest (sid c) (IP rec @ '' '' @ Domain rec)) (store w) = (NoReply, s')"
  shows "CreateRecord (Suc n) sv rec c w
           = Some (Some (Wrapped ''executing request'' TransportError), c,
               \<lparr>store = s', sent = sent w @ [PutRequest (sid c) (IP rec @ '' '' @ Domain rec)]\<rparr>)"
  using assms by (simp add: ensureAuthenticated_def httpDo_def)

lemma DeleteRecord_status:
  assumes "ensureAuthenticated sv c w = (None, c1, w1)"
    and "ListRecords (Suc n) sv c1 w1 = Some (Inr records, c2, w2)"
    and "entryToDelete domain records \<noteq> []"
    and "handle sv (DeleteRequest (sid c2) (entryToDelete domain records)) (store w2) = (Reply code b, s3)"
    and "code \<noteq> 401" and "code \<noteq> 200 \<and> code \<noteq> 204 \<and> code \<noteq> 404"
  shows "DeleteRecord (Suc n) sv domain c w
           = Some (Some (APIError code (BodyText b)), c2,
               \<lparr>store = s3,
                sent = sent w2 @ [DeleteRequest (sid c2) (entryToDelete domain records)]\<rparr>)"
  using assms by (simp add: httpDo_def del: ListRecords.simps)

lemma DeleteRecord_no_reply:
  assumes "ensureAuthenticated sv c w = (None, c1, w1)"
    and "ListRecords (Suc n) sv c1 w1 = Some (Inr records, c2, w2)"
    and "entryToDelete domain records \<noteq> []"
    and "handle sv (DeleteRequest (sid c2) (entryToDelete domain records)) (store w2) = (NoReply, s3)"
  shows "DeleteRecord (Suc n) sv domain c w
           = Some (Some (Wrapped ''executing request'' TransportError), c2,
               \<lparr>store = s3,
                sent = sent w2 @ [DeleteRequest (sid c2) (entryToDelete domain records)]\<rparr>)"
  using assms by (simp add: httpDo_def del: ListRecords.simps)

text \<open>
  Claim C3, as amended.  When a creation or deletion of a reconcile fails, the outcome of
  the reconcile is what \<^verbatim>\<open>handleAPIError\<close> makes of the error.  An
  \<^verbatim>\<open>APIError\<close> with status 400 gives no retry and no error.  An error that carries
  another status or none (so also a 403, a 404, a 500-class status, a timeout) gives a
  retry after 30 seconds together with the error.  \<^verbatim>\<open>CreateRecord\<close> and
  \<^verbatim>\<open>DeleteRecord\<close> return the status of the store's answer to their \<^verbatim>\<open>PUT\<close> or
  \<^verbatim>\<open>DELETE\<close> as an \<^verbatim>\<open>APIError\<close> when it is not a success status (nor 401), and
  a wrapped transport error when there is no answer.
\<close>

theorem store_errors_decide_the_retry:
  "(reconcileRoute env d ob ann hosts (e, []) = (out, (e', tr)) \<and> err \<in> set (failures tr)
      \<longrightarrow> out = handleAPIError err)
   \<and> (IngressReconcile env d (e, []) = (out, (e', tr)) \<and> err \<in> set (failures tr)
      \<longrightarrow> out = handleAPIError err)
   \<and> handleAPIError (APIError 400 msg) = (\<lparr>RequeueAfter = 0\<rparr>, None)
   \<and> (statusOf err \<noteq> Some 400
      \<longrightarrow> handleAPIError err = (\<lparr>RequeueAfter = 30 * second\<rparr>, Some err)
        \<and> 0 < RequeueAfter (fst (handleAPIError err)))
   \<and> (sessionValid sv c w
        \<and> handle sv (PutRequest (sid c) (IP rec @ '' '' @ Domain rec)) (store w) = (Reply code b, s')
        \<and> code \<noteq> 401 \<and> code \<noteq> 200 \<and> code \<noteq> 201 \<and> code \<noteq> 204
      \<longrightarrow> CreateRecord (Suc n) sv rec c w
           = Some (Some (APIError code (BodyText b)), c,
               \<lparr>store = s', sent = sent w @ [PutRequest (sid c) (IP rec @ '' '' @ Domain rec)]\<rparr>))
   \<and> (sessionValid sv c w
        \<and> handle sv (PutRequest (sid c) (IP rec @ '' '' @ Domain rec)) (store w) = (NoReply, s')
      \<longrightarrow> CreateRecord (Suc n) sv rec c w
           = Some (Some (Wrapped ''executing request'' TransportError), c,
               \<lparr>store = s', sent = sent w @ [PutRequest (sid c) (IP rec @ '' '' @ Domain rec)]\<rparr>))
   \<and> (ensureAuthenticated sv c w = (None, c1, w1)
        \<and> ListRecords (Suc n) sv c1 w1 = Some (Inr records, c2, w2)
        \<and> entryToDelete domain records \<noteq> []
        \<and> handle sv (DeleteRequest (sid c2) (entryToDelete domain records)) (store w2)
            = (Reply code b, s3)
        \<and> code \<noteq> 401 \<and> code \<noteq> 200 \<and> code \<noteq> 204 \<and> code \<noteq> 404
      \<longrightarrow> DeleteRecord (Suc n) sv domain c w
           = Some (Some (APIError code (BodyText b)), c2,
               \<lparr>store = s3,
                sent = sent w2 @ [DeleteRequest (sid c2) (entryToDelete domain records)]\<rparr>))
   \<and> (ensureAuthenticated sv c w = (None, c1, w1)
        \<and> ListRecords (Suc n) sv c1 w1 = Some (Inr records, c2, w2)
        \<and> entryToDelete domain records \<noteq> []
        \<and> handle sv (DeleteRequest (sid c2) (entryToDelete domain records)) (store w2)
            = (NoReply, s3)
      \<longrightarrow> DeleteRecord (Suc n) sv domain c w
           = Some (Some (Wrapped ''executing request'' TransportError), c2,
               \<lparr>store = s3,
                sent = sent w2 @ [DeleteRequest (sid c2) (entryToDelete domain records)]\<rparr>))"
proof -
  have 1: "reconcileRoute env d ob ann hosts (e, []) = (out, (e', tr)) \<and> err \<in> set (failures tr)
      \<longrightarrow> out = handleAPIError err"
    by (auto dest!: reconcileRoute_settled dest: settled_failure)
  have 2: "IngressReconcile env d (e, []) = (out, (e', tr)) \<and> err \<in> set (failures tr)
      \<longrightarrow> out = handleAPIError err"
    by (auto dest!: IngressReconcile_settled dest: settled_failure)
  have 4: "statusOf err \<noteq> Some 400
      \<longrightarrow> handleAPIError err = (\<lparr>RequeueAfter = 30 * second\<rparr>, Some err)
        \<and> 0 < RequeueAfter (fst (handleAPIError err))"
    by (simp add: handleAPIError_retry second_def)
  show ?thesis
    by (intro conjI 1 2 4 handleAPIError_bad_request impI
        CreateRecord_status CreateRecord_no_reply DeleteRecord_status DeleteRecord_no_reply)
       (elim conjE, assumption)+
qed

theorem store_errors_witness:
  "fst (IngressReconcile (rejectingEnv 400) ''192.168.1.100'' (registeredIngress, []))
     = (\<lparr>RequeueAfter = 0\<rparr>, None)
   \<and> fst (IngressReconcile (rejectingEnv 503) ''192.168.1.100'' (registeredIngress, []))
     = (\<lparr>RequeueAfter = 30000000000\<rparr>, Some (APIError 503 (BodyText (OtherJSON []))))"
proof -
  let ?e400 = "APIError 400 (BodyText (OtherJSON []))"
  let ?e503 = "APIError 503 (BodyText (OtherJSON []))"
  let ?tr = "\<lambda>err. [Got (Inr registeredIngress), Listed (Inr []),
          Created \<lparr>IP = ''192.168.1.100'', Domain = ''app.local''\<rparr> (Some err)]"
  note t = store_errors_decide_the_retry
  have r400: "IngressReconcile (rejectingEnv 400) ''192.168.1.100'' (registeredIngress, [])
      = (handleAPIError ?e400, (registeredIngress, ?tr ?e400))"
    by (rule IngressReconcile_rejected)
  have r503: "IngressReconcile (rejectingEnv 503) ''192.168.1.100'' (registeredIngress, [])
      = (handleAPIError ?e503, (registeredIngress, ?tr ?e503))"
    by (rule IngressReconcile_rejected)
  have m400: "?e400 \<in> set (failures (?tr ?e400))" by simp
  have m503: "?e503 \<in> set (failures (?tr ?e503))" by simp
  have s503: "statusOf ?e503 \<noteq> Some 400" by simp
  have o400: "fst (IngressReconcile (rejectingEnv 400) ''192.168.1.100'' (registeredIngress, []))
      = handleAPIError ?e400"
    using t [where env = "rejectingEnv 400" and err = ?e400, THEN conjunct2, THEN conjunct1]
      r400 m400 by simp
  have o503: "fst (IngressReconcile (rejectingEnv 503) ''192.168.1.100'' (registeredIngress, []))
      = handleAPIError ?e503"
    using t [where env = "rejectingEnv 503" and err = ?e503, THEN conjunct2, THEN conjunct1]
      r503 m503 by simp
  have a: "handleAPIError ?e400 = (\<lparr>RequeueAfter = 0\<rparr>, None)"
    by (rule t [THEN conjunct2, THEN conjunct2, THEN conjunct1])
  have b: "handleAPIError ?e503 = (\<lparr>RequeueAfter = 30 * second\<rparr>, Some ?e503)"
    using t [where err = ?e503, THEN conjunct2, THEN conjunct2, THEN conjunct2, THEN conjunct1]
      s503 by simp
  from a b o400 o503 show ?thesis by (simp add: second_def)
qed

text \<open>
  The claim as stated fails for the other statuses of the 400 class: a creation that the
  store answers with 403 ends the reconcile with a retry after 30 seconds.  It also fails
  for a 400 that is not the answer to the \<^verbatim>\<open>PUT\<close> or \<^verbatim>\<open>DELETE\<close> itself: when the
  listing inside \<^verbatim>\<open>DeleteRecord\<close> is answered with 400, the error reaches
  \<^verbatim>\<open>handleAPIError\<close> wrapped, and a retry is scheduled.
\<close>

theorem forbidden_create_is_retried:
  "IngressReconcile (rejectingEnv 403) ''192.168.1.100'' (registeredIngress, [])
     = ((\<lparr>RequeueAfter = 30000000000\<rparr>, Some (APIError 403 (BodyText (OtherJSON [])))),
        (registeredIngress,
         [Got (Inr registeredIngress), Listed (Inr []),
          Created \<lparr>IP = ''192.168.1.100'', Domain = ''app.local''\<rparr>
            (Some (APIError 403 (BodyText (OtherJSON []))))]))
   \<and> DeleteRecord (Suc 0) listRejectingServer ''app.local'' (NewClient ''secret'')
       \<lparr>store = (), sent = []\<rparr>
     = Some (Some (Wrapped ''listing records to find entry''
                     (APIError 400 (BodyText (OtherJSON [])))),
             freshSession,
             \<lparr>store = (), sent = [AuthRequest ''secret'', ListRequest ''sid-1'']\<rparr>)
   \<and> handleAPIError (Wrapped ''listing records to find entry''
                        (APIError 400 (BodyText (OtherJSON []))))
     = (\<lparr>RequeueAfter = 30000000000\<rparr>,
        Some (Wrapped ''listing records to find entry'' (APIError 400 (BodyText (OtherJSON [])))))"
proof (intro conjI)
  show "IngressReconcile (rejectingEnv 403) ''192.168.1.100'' (registeredIngress, [])
     = ((\<lparr>RequeueAfter = 30000000000\<rparr>, Some (APIError 403 (BodyText (OtherJSON [])))),
        (registeredIngress,
         [Got (Inr registeredIngress), Listed (Inr []),
          Created \<lparr>IP = ''192.168.1.100'', Domain = ''app.local''\<rparr>
            (Some (APIError 403 (BodyText (OtherJSON []))))]))"
    by (simp add: IngressReconcile_rejected handleAPIError_def IsRetryable_def second_def)
  show "DeleteRecord (Suc 0) listRejectingServer ''app.local'' (NewClient ''secret'')
       \<lparr>store = (), sent = []\<rparr>
     = Some (Some (Wrapped ''listing records to find entry''
                     (APIError 400 (BodyText (OtherJSON [])))),
             freshSession,
             \<lparr>store = (), sent = [AuthRequest ''secret'', ListRequest ''sid-1'']\<rparr>)"
    by (rule DeleteRecord_listRejectingServer)
  show "handleAPIError (Wrapped ''listing records to find entry''
                        (APIError 400 (BodyText (OtherJSON []))))
     = (\<lparr>RequeueAfter = 30000000000\<rparr>,
        Some (Wrapped ''listing records to find entry'' (APIError 400 (BodyText (OtherJSON [])))))"
    by (simp add: handleAPIError_def second_def)
qed

section \<open>A second reconcile\<close>














text \<open>
  Without the condition on the hosts the statement fails.  An Ingress declares the host
  \<^verbatim>\<open>"a,b"\<close>; the first reconcile creates its record and writes the annotation
  \<^verbatim>\<open>"a,b"\<close>; the second reconcile, with the object and the store as the first left
  them, reads the annotation back as the two hosts \<^verbatim>\<open>a\<close> and \<^verbatim>\<open>b\<close> and
  deletes both, here removing a record the first run found in the store.
\<close>

theorem comma_host_second_run_deletes:
  "IngressReconcile memoryEnv ''10.0.0.1''
       (\<lparr>memRecords = [\<lparr>IP = ''10.0.0.9'', Domain = ''a''\<rparr>], memObject = commaIngress\<rparr>, [])
     = ((\<lparr>RequeueAfter = 0\<rparr>, None),
        (\<lparr>memRecords = [\<lparr>IP = ''10.0.0.9'', Domain = ''a''\<rparr>,
                        \<lparr>IP = ''10.0.0.1'', Domain = ''a,b''\<rparr>],
           memObject = commaSynced\<rparr>,
         [Got (Inr commaIngress), Listed (Inr [\<lparr>IP = ''10.0.0.9'', Domain = ''a''\<rparr>]),
          Created \<lparr>IP = ''10.0.0.1'', Domain = ''a,b''\<rparr> None,
          Got (Inr commaIngress), Updated commaSynced None]))
   \<and> IngressReconcile memoryEnv ''10.0.0.1''
       (\<lparr>memRecords = [\<lparr>IP = ''10.0.0.9'', Domain = ''a''\<rparr>,
                       \<lparr>IP = ''10.0.0.1'', Domain = ''a,b''\<rparr>],
          memObject = commaSynced\<rparr>, [])
     = ((\<lparr>RequeueAfter = 0\<rparr>, None),
        (\<lparr>memRecords = [\<lparr>IP = ''10.0.0.1'', Domain = ''a,b''\<rparr>], memObject = commaSynced\<rparr>,
         [Got (Inr commaSynced),
          Listed (Inr [\<lparr>IP = ''10.0.0.9'', Domain = ''a''\<rparr>,
                       \<lparr>IP = ''10.0.0.1'', Domain = ''a,b''\<rparr>]),
          Deleted ''a'' None, Deleted ''b'' None,
          Got (Inr commaSynced), Updated commaSynced None]))"
  by (simp add: engine_eval_simps memoryEnv_def commaIngress_def commaSynced_def
      parse_comma_host fun_upd_twist)


end
